theory Spec2Isabelle
  imports Main "HOL-Library.Multiset"
begin

section \<open>Machine integers\<close>

text \<open>
  The C++ \<open>int\<close> is 32 bits wide and \<open>intptr_t\<close> is 64 bits wide on every target of
  the TensorRT runtime. Values are kept as HOL integers and the two's-complement
  wrap-around is written out where the source does arithmetic on them.
  \<open>std::atomic<intptr_t>::fetch_add\<close> is defined to wrap. Overflow of a plain
  \<open>int\<close> expression is formally undefined; the model takes the two's-complement
  result that the compilers of the supported targets produce.
\<close>

definition wrap32 :: "int \<Rightarrow> int" where
  "wrap32 x = (x + 2 ^ 31) mod 2 ^ 32 - 2 ^ 31"

definition wrap64 :: "int \<Rightarrow> int" where
  "wrap64 x = (x + 2 ^ 63) mod 2 ^ 64 - 2 ^ 63"

definition INT_MAX :: int where
  "INT_MAX = 2 ^ 31 - 1"

definition INT_MIN :: int where
  "INT_MIN = - (2 ^ 31)"

text \<open>\<open>int64ToIntS\<close> of VapourSynth's VSHelper.h: saturating conversion to \<open>int\<close>.\<close>

definition int64ToIntS :: "int \<Rightarrow> int" where
  "int64ToIntS i = (if i > INT_MAX then INT_MAX else if i < INT_MIN then INT_MIN else i)"

text \<open>
  The C++ operator \<open>/\<close> on \<open>int\<close>: the quotient is truncated towards zero; a zero
  divisor and \<open>INT_MIN / -1\<close> are undefined, which is the result \<open>None\<close>.
\<close>

definition trunc_div :: "int \<Rightarrow> int \<Rightarrow> int" where
  "trunc_div a b =
     (if (a < 0) = (b < 0) then \<bar>a\<bar> div \<bar>b\<bar> else - (\<bar>a\<bar> div \<bar>b\<bar>))"

definition c_div :: "int \<Rightarrow> int \<Rightarrow> int option" where
  "c_div a b =
     (if b = 0 \<or> (a = INT_MIN \<and> b = - 1) then None else Some (trunc_div a b))"

text \<open>\<open>std::to_string\<close> on \<open>int\<close>: the decimal digits, with a minus sign in front
  of a negative value.\<close>

fun digits :: "nat \<Rightarrow> string" where
  "digits n =
     (if n < 10 then [char_of (48 + n)]
      else digits (n div 10) @ [char_of (48 + n mod 10)])"

definition to_string :: "int \<Rightarrow> string" where
  "to_string i = (if i < 0 then CHR ''-'' # digits (nat (- i)) else digits (nat i))"

section \<open>Ticket semaphore and instance pool\<close>

text \<open>
  The shared state of \<open>vsTrtData\<close> that the pool operations touch: the two atomic
  counters of \<open>TicketSemaphore\<close>, the free-list \<open>tickets\<close> (a \<open>std::vector<int>\<close>,
  its back is the last element of the list), and one program counter for each host thread
  that runs \<open>vsTrtGetFrame\<close>.

  A thread is at one of these places:
  \<^item> \<open>Idle\<close>: outside \<open>acquire\<close> and \<open>release\<close>;
  \<^item> \<open>Loading tk\<close>: inside \<open>TicketSemaphore::acquire\<close> with ticket \<open>tk\<close>, before
    \<open>current.load\<close>;
  \<^item> \<open>Waiting tk curr\<close>: inside \<open>current.wait(curr)\<close>;
  \<^item> \<open>Admitted\<close>: \<open>semaphore.acquire()\<close> has returned, the free-list pop is next;
  \<^item> \<open>Holding k\<close>: \<open>vsTrtData::acquire\<close> has returned index \<open>k\<close>, inference runs;
  \<^item> \<open>Pushed\<close>: \<open>release\<close> has pushed the index back, \<open>semaphore.release()\<close> is next.
\<close>

datatype pc =
    Idle
  | Loading int
  | Waiting int int
  | Admitted
  | Holding int
  | Pushed

record pool =
  ticket :: int
  current :: int
  tickets :: "int list"
  threads :: "pc list"

datatype ub = PopEmpty

text \<open>
  \<open>vsTrtCreate\<close>, lines 364 to 368: \<open>semaphore.init(num_streams)\<close> stores
  \<open>num_streams\<close> in \<open>current\<close> (\<open>ticket\<close> is value-initialised to 0) and the loop
  pushes \<open>0, 1, ..., num_streams - 1\<close>. \<open>M\<close> is the number of host threads.
\<close>

definition pool_init :: "int \<Rightarrow> nat \<Rightarrow> pool" where
  "pool_init num_streams M =
     \<lparr> ticket = 0, current = num_streams,
       tickets = map int [0..<nat num_streams],
       threads = replicate M Idle \<rparr>"

text \<open>
  One atomic action of thread \<open>i\<close>. The atomic operations are taken as sequentially
  consistent steps, and the critical sections under \<open>instances_lock\<close> as single steps.
  \<^item> \<open>Idle\<close>: \<open>ticket.fetch_add(1)\<close>.
  \<^item> \<open>Loading tk\<close>: \<open>current.load()\<close> and the test \<open>tk < curr\<close>.
  \<^item> \<open>Waiting tk curr\<close>: \<open>current.wait(curr)\<close> returns only once \<open>current\<close> differs
    from \<open>curr\<close>; until then the thread stays where it is.
  \<^item> \<open>Admitted\<close>: \<open>tickets.back()\<close> and \<open>tickets.pop_back()\<close>; on an empty vector
    both are undefined, which is the result \<open>Inl PopEmpty\<close>.
  \<^item> \<open>Holding k\<close>: \<open>tickets.push_back(k)\<close>.
  \<^item> \<open>Pushed\<close>: \<open>current.fetch_add(1)\<close> and \<open>notify_all\<close>.
  A thread index outside the thread table does nothing.
\<close>

definition thread_step :: "pool \<Rightarrow> nat \<Rightarrow> ub + pool" where
  "thread_step s i =
     (if i < length (threads s) then
        (case threads s ! i of
           Idle \<Rightarrow>
             Inr (s\<lparr> ticket := wrap64 (ticket s + 1),
                     threads := (threads s)[i := Loading (ticket s)] \<rparr>)
         | Loading tk \<Rightarrow>
             (if tk < current s
              then Inr (s\<lparr> threads := (threads s)[i := Admitted] \<rparr>)
              else Inr (s\<lparr> threads := (threads s)[i := Waiting tk (current s)] \<rparr>))
         | Waiting tk cur \<Rightarrow>
             (if current s \<noteq> cur
              then Inr (s\<lparr> threads := (threads s)[i := Loading tk] \<rparr>)
              else Inr s)
         | Admitted \<Rightarrow>
             (if tickets s = [] then Inl PopEmpty
              else Inr (s\<lparr> tickets := butlast (tickets s),
                            threads := (threads s)[i := Holding (last (tickets s))] \<rparr>))
         | Holding k \<Rightarrow>
             Inr (s\<lparr> tickets := tickets s @ [k],
                     threads := (threads s)[i := Pushed] \<rparr>)
         | Pushed \<Rightarrow>
             Inr (s\<lparr> current := wrap64 (current s + 1),
                     threads := (threads s)[i := Idle] \<rparr>))
      else Inr s)"

text \<open>An interleaving is the list of thread indices in the order in which they act.\<close>

fun run :: "pool \<Rightarrow> nat list \<Rightarrow> ub + pool" where
  "run s [] = Inr s"
| "run s (i # sched) =
     (case thread_step s i of Inl e \<Rightarrow> Inl e | Inr s' \<Rightarrow> run s' sched)"

text \<open>Threads past the semaphore, tickets of the threads still inside
  \<open>TicketSemaphore::acquire\<close>, and indices that are checked out.\<close>

fun adm :: "pc \<Rightarrow> nat" where
  "adm Admitted = 1"
| "adm (Holding k) = 1"
| "adm Pushed = 1"
| "adm _ = 0"

fun wt :: "pc \<Rightarrow> int list" where
  "wt (Loading tk) = [tk]"
| "wt (Waiting tk cur) = [tk]"
| "wt _ = []"

fun co :: "pc \<Rightarrow> int list" where
  "co (Holding k) = [k]"
| "co _ = []"

definition admitted :: "pc list \<Rightarrow> nat" where
  "admitted ps = sum_list (map adm ps)"

definition waiting :: "pc list \<Rightarrow> int list" where
  "waiting ps = concat (map wt ps)"

definition checked_out :: "pc list \<Rightarrow> int list" where
  "checked_out ps = concat (map co ps)"

text \<open>
  The facts about a reachable pool state that the proofs carry along an interleaving of
  \<open>n\<close> steps: the counters have not left their range, the tickets of the waiting
  threads are distinct and below \<open>ticket\<close>, every ticket from \<open>current\<close> upwards that
  has been handed out is still waiting, every ticket handed out is waiting, admitted or
  released, and every index is in the free-list or checked out.
\<close>

definition pool_inv :: "int \<Rightarrow> nat \<Rightarrow> pool \<Rightarrow> bool" where
  "pool_inv N n s \<longleftrightarrow>
     0 \<le> ticket s \<and> ticket s \<le> int n \<and>
     N \<le> current s \<and> current s \<le> N + int n \<and>
     distinct (waiting (threads s)) \<and>
     (\<forall>k \<in> set (waiting (threads s)). 0 \<le> k \<and> k < ticket s) \<and>
     (\<forall>k. current s \<le> k \<and> k < ticket s \<longrightarrow> k \<in> set (waiting (threads s))) \<and>
     int (admitted (threads s)) + (current s - N) + int (length (waiting (threads s)))
       = ticket s \<and>
     mset (tickets s) + mset (checked_out (threads s)) = mset (map int [0..<nat N]) \<and>
     (\<forall>tk c. Waiting tk c \<in> set (threads s) \<longrightarrow> c \<le> tk \<and> c \<le> current s)"

section \<open>Host and engine data\<close>

text \<open>
  Handles of the host (\<open>VSNodeRef *\<close>, \<open>VSFrameRef *\<close>) and of the engine are opaque;
  they are numbered. \<open>VSVideoInfo\<close> keeps the fields that the filter reads, with
  \<open>format->numPlanes\<close> stored beside the dimensions. \<open>nvinfer1::Dims\<close> is a fixed
  array of eight extents, so reading \<open>d[2]\<close> and \<open>d[3]\<close> is always inside the array.
  An \<open>InferenceInstance\<close> is seen through \<open>exec_context->getBindingDimensions\<close>.
\<close>

type_synonym VSNodeRef = nat
type_synonym VSFrameRef = nat
type_synonym ErrorMessage = string

record VSVideoInfo =
  numPlanes :: int
  width :: int
  height :: int

record Dims =
  nbDims :: int
  d :: "nat \<Rightarrow> int"

record InferenceInstance =
  getBindingDimensions :: "nat \<Rightarrow> Dims"

record vsTrtData =
  nodes :: "VSNodeRef list"
  out_vi :: VSVideoInfo
  device_id :: int
  num_streams :: int
  use_cuda_graph :: bool
  pad :: int
  engine :: "nat \<Rightarrow> Dims"
  verbosity :: int
  semaphore_current :: int
  free_list :: "int list"
  instances :: "InferenceInstance list"

text \<open>Shapes in NCHW order and an instance bound to an input and an output shape, for
  writing down concrete inputs.\<close>

definition dims4 :: "int \<Rightarrow> int \<Rightarrow> int \<Rightarrow> int \<Rightarrow> Dims" where
  "dims4 n c h w =
     \<lparr> nbDims = 4,
       d = (\<lambda>i. if i = 0 then n else if i = 1 then c else if i = 2 then h
                 else if i = 3 then w else 0) \<rparr>"

definition bound_instance :: "Dims \<Rightarrow> Dims \<Rightarrow> InferenceInstance" where
  "bound_instance src dst = \<lparr> getBindingDimensions = (\<lambda>i. if i = 0 then src else dst) \<rparr>"

section \<open>The frame callback\<close>

datatype VSActivationReason = arInitial | arFrameReady | arAllFramesReady | arError

record IOInfo =
  in_width :: int
  in_height :: int
  in_pitch :: int
  in_bytes_per_sample :: int
  patch_w :: int
  patch_h :: int
  out_pitch :: int
  out_bytes_per_sample :: int
  w_scale :: int
  h_scale :: int
  info_pad :: int

text \<open>
  What one call of \<open>vsTrtGetFrame\<close> does to the host and to the pool, in the order in
  which it does it. \<open>Acquire k\<close> is \<open>d->acquire()\<close> returning index \<open>k\<close>,
  \<open>Inference k info\<close> the call of \<open>inference\<close> on instance \<open>k\<close> up to its return,
  \<open>Release k\<close> is \<open>d->release(k)\<close>.
\<close>

datatype event =
    RequestFrameFilter int VSNodeRef
  | GetFrameFilter int VSNodeRef VSFrameRef
  | NewVideoFrame VSFrameRef
  | Acquire int
  | Inference int IOInfo
  | Release int
  | FreeFrame VSFrameRef
  | SetFilterError string

text \<open>
  The answers of the collaborators during one call: the host's frame and format queries,
  the index that the pool hands out, and what \<open>inference\<close> returns (\<open>None\<close> on
  success, the message otherwise).
\<close>

record frame_env =
  getVideoInfo :: "VSNodeRef \<Rightarrow> VSVideoInfo"
  getFrameFilter :: "int \<Rightarrow> VSNodeRef \<Rightarrow> VSFrameRef"
  newVideoFrame :: VSFrameRef
  getFrameWidth :: "VSFrameRef \<Rightarrow> int"
  getFrameHeight :: "VSFrameRef \<Rightarrow> int"
  getStride :: "VSFrameRef \<Rightarrow> int"
  bytesPerSample :: "VSFrameRef \<Rightarrow> int"
  acquire :: int
  inference_result :: "string option"

datatype fault = DivisionUndefined | IndexOutOfRange | LengthError

text \<open>
  Modelled from the spec: \<open>getFrames\<close> and \<open>getVideoInfo\<close> of utils.h, which is not
  part of the sources at hand. \<open>getFrames\<close> fetches the requested frame of every
  upstream source, in source order; \<open>getVideoInfo\<close> asks the host for the video info of
  every source (the \<open>map\<close> at the head of \<open>vsTrtGetFrame\<close> below).
\<close>

definition getFrames ::
  "int \<Rightarrow> frame_env \<Rightarrow> VSNodeRef list \<Rightarrow> event list \<times> VSFrameRef list" where
  "getFrames n env ns =
     (map (\<lambda>node. GetFrameFilter n node (getFrameFilter env n node)) ns,
      map (getFrameFilter env n) ns)"

text \<open>Lines 152 to 161: the scale factors from the bound shapes of the checked-out
  instance.\<close>

definition scale_factors :: "InferenceInstance \<Rightarrow> (int \<times> int) option" where
  "scale_factors instance =
     (let src_dim = getBindingDimensions instance 0;
          src_patch_h = d src_dim 2;
          src_patch_w = d src_dim 3;
          dst_dim = getBindingDimensions instance 1;
          dst_patch_h = d dst_dim 2;
          dst_patch_w = d dst_dim 3
      in case c_div dst_patch_h src_patch_h of
           None \<Rightarrow> None
         | Some hs \<Rightarrow>
             (case c_div dst_patch_w src_patch_w of
                None \<Rightarrow> None
              | Some ws \<Rightarrow> Some (hs, ws)))"

text \<open>
  \<open>vsTrtGetFrame\<close>. The result is the list of effects and the returned frame
  (\<open>None\<close> is \<open>nullptr\<close>). The call ends with a fault instead
  \<^item> in \<open>src_ptrs.reserve(src_planes)\<close> and \<open>dst_ptrs.reserve(dst_planes)\<close> when the
    channel extent \<open>d[1]\<close> of the engine's binding 0 or 1 is negative: the \<open>int\<close> is
    converted to a \<open>size_t\<close> above \<open>max_size()\<close>, \<open>std::length_error\<close> is thrown
    and leaves the \<open>noexcept\<close> function, so the process terminates (\<open>LengthError\<close>);
  \<^item> when element 0 of an empty \<open>src_frames\<close> is read or \<open>instances\<close> is indexed
    outside its bounds (\<open>IndexOutOfRange\<close>);
  \<^item> when a division of lines 160 and 161 is undefined (\<open>DivisionUndefined\<close>).
  Running out of memory is not modelled.
\<close>

definition vsTrtGetFrame ::
  "int \<Rightarrow> VSActivationReason \<Rightarrow> vsTrtData \<Rightarrow> frame_env
     \<Rightarrow> fault + (event list \<times> VSFrameRef option)" where
  "vsTrtGetFrame n activationReason dat env =
     (if activationReason = arInitial then
        Inr (map (RequestFrameFilter n) (nodes dat), None)
      else if activationReason = arAllFramesReady then
        (let in_vis = map (getVideoInfo env) (nodes dat);
             (evs1, src_frames) = getFrames n env (nodes dat);
             src_planes = d (engine dat 0) 1
         in if src_planes < 0 then Inl LengthError
            else
         (let src_ptrs = concat (map (\<lambda>(f, vi). map (\<lambda>j. (f, j)) [0..<nat (numPlanes vi)])
                                     (zip src_frames in_vis))
          in case src_frames of
              [] \<Rightarrow> Inl IndexOutOfRange
            | frame0 # _ \<Rightarrow>
               (let dst_frame = newVideoFrame env;
                    evs2 = evs1 @ [NewVideoFrame dst_frame];
                    dst_planes = d (engine dat 1) 1
                in if dst_planes < 0 then Inl LengthError
                   else
               (let dst_ptrs = map (\<lambda>i. (dst_frame, i)) [0..<nat dst_planes];
                    ticket = acquire env;
                    evs3 = evs2 @ [Acquire ticket]
                in if ticket < 0 \<or> int (length (instances dat)) \<le> ticket
                   then Inl IndexOutOfRange
                   else
                    (let instance = instances dat ! nat ticket
                     in case scale_factors instance of
                          None \<Rightarrow> Inl DivisionUndefined
                        | Some (hs, ws) \<Rightarrow>
                           (let info = \<lparr> in_width = getFrameWidth env frame0,
                                         in_height = getFrameHeight env frame0,
                                         in_pitch = getStride env frame0,
                                         in_bytes_per_sample = bytesPerSample env frame0,
                                         patch_w = d (getBindingDimensions instance 0) 3,
                                         patch_h = d (getBindingDimensions instance 0) 2,
                                         out_pitch = getStride env dst_frame,
                                         out_bytes_per_sample = bytesPerSample env dst_frame,
                                         w_scale = ws,
                                         h_scale = hs,
                                         info_pad = pad dat \<rparr>;
                                evs4 = evs3 @ [Inference ticket info];
                                evs5 = evs4 @ [Release ticket];
                                evs6 = evs5 @ map FreeFrame src_frames
                            in case inference_result env of
                                 Some msg \<Rightarrow>
                                   Inr (evs6 @ [SetFilterError (''vsTrtGetFrame: '' @ msg),
                                                FreeFrame dst_frame],
                                        None)
                               | None \<Rightarrow> Inr (evs6, Some dst_frame)))))))
      else Inr ([], None))"

text \<open>
  Reference counting over a list of effects: a frame handed to the call counts one up,
  \<open>freeFrame\<close> counts one down; likewise for pool slots.
\<close>

fun frame_delta :: "VSFrameRef \<Rightarrow> event \<Rightarrow> int" where
  "frame_delta f (GetFrameFilter n node g) = (if f = g then 1 else 0)"
| "frame_delta f (NewVideoFrame g) = (if f = g then 1 else 0)"
| "frame_delta f (FreeFrame g) = (if f = g then - 1 else 0)"
| "frame_delta f _ = 0"

fun slot_delta :: "int \<Rightarrow> event \<Rightarrow> int" where
  "slot_delta k (Acquire j) = (if k = j then 1 else 0)"
| "slot_delta k (Release j) = (if k = j then - 1 else 0)"
| "slot_delta k _ = 0"

definition frame_refs :: "event list \<Rightarrow> VSFrameRef \<Rightarrow> int" where
  "frame_refs evs f = sum_list (map (frame_delta f) evs)"

definition slot_refs :: "event list \<Rightarrow> int \<Rightarrow> int" where
  "slot_refs evs k = sum_list (map (slot_delta k) evs)"

section \<open>Setup\<close>

text \<open>
  The argument map of \<open>Model\<close>. An optional integer that is absent is \<open>None\<close>;
  \<open>propGetInt\<close> then returns 0 and sets the error flag.
\<close>

record create_args =
  clips :: "VSNodeRef list"
  engine_path :: string
  arg_pad :: "int option"
  arg_block_w :: "int option"
  arg_block_h :: "int option"
  arg_device_id :: "int option"
  arg_use_cuda_graph :: "int option"
  arg_num_streams :: "int option"
  arg_verbosity :: "int option"

definition propGetInt :: "int option \<Rightarrow> int \<times> bool" where
  "propGetInt v = (case v of None \<Rightarrow> (0, True) | Some i \<Rightarrow> (i, False))"

datatype BlockSize = RequestedBlockSize int int | VideoSize int int

text \<open>
  The collaborators of the setup: the host's \<open>getVideoInfo\<close>, \<open>checkNodes\<close>, the two
  CUDA calls under the \<open>checkError\<close> macro (a failure carries the message that the macro
  hands to \<open>set_error\<close>), the engine loader, the profile selector, the instance builder
  (its answer may differ from call to call, so it is indexed by the loop counter) and
  \<open>setDimensions\<close>. \<open>lambda_func\<close> is the value of \<open>__func__\<close> inside the lambda
  \<open>set_error\<close>; it is the compiler's name for the call operator of the lambda
  (\<open>operator()\<close> with GCC and Clang), not the name of \<open>vsTrtCreate\<close>.
\<close>

record create_env =
  lambda_func :: string
  videoInfo :: "VSNodeRef \<Rightarrow> VSVideoInfo"
  checkNodes :: "VSVideoInfo list \<Rightarrow> ErrorMessage option"
  cudaGetDeviceCount :: "ErrorMessage + int"
  cudaSetDevice :: "int \<Rightarrow> ErrorMessage option"
  initEngine :: "string \<Rightarrow> ErrorMessage + (nat \<Rightarrow> Dims)"
  selectProfile :: "(nat \<Rightarrow> Dims) \<Rightarrow> BlockSize \<Rightarrow> ErrorMessage + int"
  getResource :: "nat \<Rightarrow> (nat \<Rightarrow> Dims) \<Rightarrow> ErrorMessage + int \<Rightarrow> BlockSize \<Rightarrow> bool
                    \<Rightarrow> ErrorMessage + InferenceInstance"
  setDimensions :: "VSVideoInfo \<Rightarrow> InferenceInstance \<Rightarrow> VSVideoInfo"

datatype setup_event =
    SetError string
  | FreeNode VSNodeRef
  | InitEngine string
  | CreateFilter

text \<open>
  How \<open>vsTrtCreate\<close> ends: \<open>Failed\<close> after \<open>set_error\<close>, \<open>Created\<close> after
  \<open>createFilter\<close>, \<open>Terminated\<close> when an exception leaves the \<open>noexcept\<close> function,
  \<open>Undefined\<close> when element 0 of an empty vector is read.
\<close>

datatype create_result =
    Failed string
  | Created vsTrtData
  | Terminated
  | Undefined

datatype 'a checked = Ok 'a | Fail ErrorMessage | Undef

text \<open>The lambda \<open>set_error\<close>, lines 238 to 243.\<close>

definition set_error ::
  "string \<Rightarrow> VSNodeRef list \<Rightarrow> setup_event list \<Rightarrow> string
     \<Rightarrow> setup_event list \<times> create_result" where
  "set_error func ns evs error_message =
     (evs @ [SetError (func @ '': '' @ error_message)] @ map FreeNode ns,
      Failed (func @ '': '' @ error_message))"

text \<open>Lines 266 to 300: the tile request, or the whole frame.\<close>

definition block_size_of :: "int \<Rightarrow> create_args \<Rightarrow> VSVideoInfo list \<Rightarrow> BlockSize checked" where
  \<open>block_size_of p args in_vis =
     (let (v1, error1) = propGetInt (arg_block_w args);
          block_w = int64ToIntS v1;
          (v2, error2) = propGetInt (arg_block_h args);
          block_h = int64ToIntS v2
      in if \<not> error1 then
           (let block_h = (if error2 then block_w else block_h)
            in if wrap32 (block_w - wrap32 (2 * p)) \<le> 0 \<or> wrap32 (block_h - wrap32 (2 * p)) \<le> 0
               then Fail ''"pad" too large''
               else Ok (RequestedBlockSize block_w block_h))
         else if p \<noteq> 0 then Fail ''"block_w" must be specified''
         else
           (case in_vis of
              [] \<Rightarrow> Undef
            | vi0 # _ \<Rightarrow>
                if wrap32 (width vi0 - wrap32 (2 * p)) \<le> 0
                   \<or> wrap32 (height vi0 - wrap32 (2 * p)) \<le> 0
                then Fail ''"pad" too large''
                else Ok (VideoSize (width vi0) (height vi0))))\<close>

text \<open>Lines 302 to 314: the device.\<close>

definition device_of :: "create_args \<Rightarrow> create_env \<Rightarrow> int checked" where
  "device_of args env =
     (let (v, error) = propGetInt (arg_device_id args);
          dev = (if error then 0 else int64ToIntS v)
      in case cudaGetDeviceCount env of
           Inl m \<Rightarrow> Fail m
         | Inr device_count \<Rightarrow>
             if 0 \<le> dev \<and> dev < device_count then
               (case cudaSetDevice env dev of Some m \<Rightarrow> Fail m | None \<Rightarrow> Ok dev)
             else Fail (''invalid device ID ('' @ to_string dev @ '')''))"

text \<open>The loop of lines 349 to 362: the first failing \<open>getResource\<close> ends the setup.\<close>

fun getResources ::
  "(nat \<Rightarrow> ErrorMessage + InferenceInstance) \<Rightarrow> nat list \<Rightarrow> InferenceInstance list
     \<Rightarrow> ErrorMessage + InferenceInstance list" where
  "getResources g [] acc = Inr acc"
| "getResources g (i # is) acc =
     (case g i of Inl m \<Rightarrow> Inl m | Inr instance \<Rightarrow> getResources g is (acc @ [instance]))"

definition kWARNING :: int where
  "kWARNING = 2"

text \<open>
  Lines 338 to 377. \<open>instances.reserve(num_streams)\<close> converts a negative
  \<open>num_streams\<close> to a \<open>size_t\<close> above \<open>max_size()\<close> and throws
  \<open>std::length_error\<close>; \<open>vsTrtCreate\<close> is \<open>noexcept\<close>, so the process terminates
  there. With \<open>num_streams = 0\<close> no instance is built and \<open>instances[0]\<close> reads an
  empty vector.
\<close>

definition build_pool ::
  "create_args \<Rightarrow> create_env \<Rightarrow> VSVideoInfo list \<Rightarrow> int \<Rightarrow> BlockSize \<Rightarrow> int \<Rightarrow> bool \<Rightarrow> int
     \<Rightarrow> int \<Rightarrow> setup_event list \<times> create_result" where
  "build_pool args env in_vis p block_size dev graph streams verb =
     (let evs = [InitEngine (engine_path args)]
      in case initEngine env (engine_path args) of
           Inl m \<Rightarrow> set_error (lambda_func env) (clips args) evs m
         | Inr eng \<Rightarrow>
            (let maybe_profile_index = selectProfile env eng block_size
             in if streams < 0 then (evs, Terminated)
                else
                 (case getResources
                         (\<lambda>i. getResource env i eng maybe_profile_index block_size graph)
                         [0..<nat streams] [] of
                    Inl m \<Rightarrow> set_error (lambda_func env) (clips args) evs m
                  | Inr insts \<Rightarrow>
                     (case in_vis of
                        [] \<Rightarrow> (evs, Undefined)
                      | vi0 # _ \<Rightarrow>
                         (case insts of
                            [] \<Rightarrow> (evs, Undefined)
                          | instance0 # _ \<Rightarrow>
                             (evs @ [CreateFilter],
                              Created \<lparr> nodes = clips args,
                                        out_vi = setDimensions env vi0 instance0,
                                        device_id = dev,
                                        num_streams = streams,
                                        use_cuda_graph = graph,
                                        pad = p,
                                        engine = eng,
                                        verbosity = verb,
                                        semaphore_current = streams,
                                        free_list = map int [0..<nat streams],
                                        instances = insts \<rparr>))))))"

text \<open>\<open>vsTrtCreate\<close>: the effects on the host and the way the setup ends.\<close>

definition vsTrtCreate :: "create_args \<Rightarrow> create_env \<Rightarrow> setup_event list \<times> create_result" where
  \<open>vsTrtCreate args env =
     (let in_vis = map (videoInfo env) (clips args)
      in case checkNodes env in_vis of
           Some err \<Rightarrow> set_error (lambda_func env) (clips args) [] err
         | None \<Rightarrow>
            (let (v, error) = propGetInt (arg_pad args);
                 p = (if error then 0 else int64ToIntS v)
             in if p < 0 then set_error (lambda_func env) (clips args) [] ''"pad" should be non-negative''
                else
                 (case block_size_of p args in_vis of
                    Fail m \<Rightarrow> set_error (lambda_func env) (clips args) [] m
                  | Undef \<Rightarrow> ([], Undefined)
                  | Ok block_size \<Rightarrow>
                     (case device_of args env of
                        Fail m \<Rightarrow> set_error (lambda_func env) (clips args) [] m
                      | Undef \<Rightarrow> ([], Undefined)
                      | Ok dev \<Rightarrow>
                         (let (v, error) = propGetInt (arg_use_cuda_graph args);
                              graph = (if error then False else v \<noteq> 0);
                              (v, error) = propGetInt (arg_num_streams args);
                              streams = (if error then 1 else int64ToIntS v);
                              (v, error) = propGetInt (arg_verbosity args);
                              verb = (if error then kWARNING else int64ToIntS v)
                          in build_pool args env in_vis p block_size dev graph streams verb)))))\<close>

section \<open>Sample inputs\<close>

text \<open>
  Concrete inputs for evaluating the model: a filter instance with one upstream clip of
  64 by 64 and two instances bound to 64 by 64 in and 128 by 128 out; the host's answers
  during one frame request (upstream frame 10, new frame 20, the pool hands out index 1);
  an argument map with the given \<open>pad\<close>, \<open>block_w\<close>, \<open>block_h\<close> and
  \<open>num_streams\<close>; and collaborators of the setup that all succeed, with an engine
  that doubles whatever tile size is requested.
\<close>

definition sample_data :: vsTrtData where
  "sample_data =
     \<lparr> nodes = [0],
       out_vi = \<lparr> numPlanes = 3, width = 128, height = 128 \<rparr>,
       device_id = 0, num_streams = 2, use_cuda_graph = False, pad = 0,
       engine = (\<lambda>i. if i = 0 then dims4 1 3 64 64 else dims4 1 3 128 128),
       verbosity = 2, semaphore_current = 2, free_list = [0, 1],
       instances = [bound_instance (dims4 1 3 64 64) (dims4 1 3 128 128),
                    bound_instance (dims4 1 3 64 64) (dims4 1 3 128 128)] \<rparr>"

definition sample_frame_env :: "string option \<Rightarrow> frame_env" where
  "sample_frame_env r =
     \<lparr> getVideoInfo = (\<lambda>node. \<lparr> numPlanes = 3, width = 64, height = 64 \<rparr>),
       getFrameFilter = (\<lambda>n node. 10 + node),
       newVideoFrame = 20,
       getFrameWidth = (\<lambda>f. 64), getFrameHeight = (\<lambda>f. 64),
       getStride = (\<lambda>f. 256), bytesPerSample = (\<lambda>f. 4),
       acquire = 1, inference_result = r \<rparr>"

definition sample_args ::
  "int option \<Rightarrow> int option \<Rightarrow> int option \<Rightarrow> int option \<Rightarrow> create_args" where
  "sample_args p bw bh streams =
     \<lparr> clips = [0], engine_path = ''model.engine'',
       arg_pad = p, arg_block_w = bw, arg_block_h = bh,
       arg_device_id = None, arg_use_cuda_graph = None,
       arg_num_streams = streams, arg_verbosity = None \<rparr>"

fun upscaler :: "BlockSize \<Rightarrow> InferenceInstance" where
  "upscaler (RequestedBlockSize w h) = bound_instance (dims4 1 3 h w) (dims4 1 3 (2 * h) (2 * w))"
| "upscaler (VideoSize w h) = bound_instance (dims4 1 3 h w) (dims4 1 3 (2 * h) (2 * w))"

definition sample_create_env :: create_env where
  "sample_create_env =
     \<lparr> lambda_func = ''operator()'',
       videoInfo = (\<lambda>node. \<lparr> numPlanes = 3, width = 64, height = 64 \<rparr>),
       checkNodes = (\<lambda>vis. None),
       cudaGetDeviceCount = Inr 1,
       cudaSetDevice = (\<lambda>dev. None),
       initEngine = (\<lambda>path. Inr (\<lambda>i. dims4 1 3 (- 1) (- 1))),
       selectProfile = (\<lambda>eng bs. Inr 0),
       getResource = (\<lambda>i eng profile bs graph. Inr (upscaler bs)),
       setDimensions = (\<lambda>vi instance. vi\<lparr> width := d (getBindingDimensions instance 1) 3,
                                           height := d (getBindingDimensions instance 1) 2 \<rparr>) \<rparr>"

section \<open>Proofs: ticket semaphore and instance pool\<close>

lemma wrap64_id: "- (2 ^ 63) \<le> x \<Longrightarrow> x < 2 ^ 63 \<Longrightarrow> wrap64 x = x"
  by (simp add: wrap64_def)

lemma admitted_append [simp]: "admitted (xs @ ys) = admitted xs + admitted ys"
  by (simp add: admitted_def)
lemma admitted_Cons [simp]: "admitted (p # ps) = adm p + admitted ps"
  by (simp add: admitted_def)
lemma waiting_append [simp]: "waiting (xs @ ys) = waiting xs @ waiting ys"
  by (simp add: waiting_def)
lemma waiting_Cons [simp]: "waiting (p # ps) = wt p @ waiting ps"
  by (simp add: waiting_def)
lemma checked_out_append [simp]: "checked_out (xs @ ys) = checked_out xs @ checked_out ys"
  by (simp add: checked_out_def)
lemma checked_out_Cons [simp]: "checked_out (p # ps) = co p @ checked_out ps"
  by (simp add: checked_out_def)

lemma checked_out_le_admitted: "length (checked_out ps) \<le> admitted ps"
proof (induction ps)
  case Nil show ?case by (simp add: checked_out_def admitted_def)
next
  case (Cons p ps) then show ?case by (cases p) auto
qed

lemma admitted_le:
  assumes "pool_inv N n s" "0 \<le> N"
  shows "int (admitted (threads s)) \<le> N"
proof -
  let ?W = "set (waiting (threads s))"
  have d: "int (length (waiting (threads s))) = int (card ?W)"
    using assms by (simp add: pool_inv_def distinct_card)
  have sub: "{current s..<ticket s} \<subseteq> ?W"
    using assms by (auto simp: pool_inv_def)
  have "card {current s..<ticket s} \<le> card ?W"
    by (rule card_mono[OF _ sub]) simp
  then have "ticket s - current s \<le> int (card ?W)" by simp
  moreover have "int (admitted (threads s)) + (current s - N) + int (length (waiting (threads s))) = ticket s"
    using assms by (simp add: pool_inv_def)
  ultimately show ?thesis using d by linarith
qed

lemma upd_split:
  assumes "i < length xs"
  shows "\<exists>ys zs. xs = ys @ xs ! i # zs \<and> (\<forall>p. xs[i := p] = ys @ p # zs)"
proof (intro exI conjI allI)
  show "xs = take i xs @ xs ! i # drop (Suc i) xs"
    using assms by (simp add: id_take_nth_drop)
  show "xs[i := p] = take i xs @ p # drop (Suc i) xs" for p
    using assms by (simp add: upd_conv_take_nth_drop)
qed

lemma tickets_nonempty:
  assumes inv: "pool_inv N n s" and N: "0 \<le> N"
    and th: "threads s = ys @ Admitted # zs"
  shows "tickets s \<noteq> []"
proof
  assume e: "tickets s = []"
  have "size (mset (tickets s) + mset (checked_out (threads s))) = size (mset (map int [0..<nat N]))"
    using inv by (simp add: pool_inv_def)
  then have len: "length (checked_out (threads s)) = nat N" using e by simp
  have "length (checked_out (threads s)) < admitted (threads s)"
    using checked_out_le_admitted[of ys] checked_out_le_admitted[of zs] th by simp
  moreover have "int (admitted (threads s)) \<le> N" by (rule admitted_le[OF inv N])
  ultimately show False using len by linarith
qed

lemma step_inv:
  assumes inv: "pool_inv N n s" and N: "0 \<le> N" and bound: "int n + N + 1 < 2 ^ 63"
  shows "\<exists>s'. thread_step s i = Inr s' \<and> pool_inv N (Suc n) s'"
proof (cases "i < length (threads s)")
  case False
  then show ?thesis using inv by (auto simp: thread_step_def pool_inv_def)
next
  case True
  then obtain ys zs where th: "threads s = ys @ threads s ! i # zs"
    and upd: "\<And>p. (threads s)[i := p] = ys @ p # zs"
    using upd_split[of i "threads s"] by blast
  have w1: "wrap64 (ticket s + 1) = ticket s + 1"
    using inv N bound by (intro wrap64_id) (auto simp: pool_inv_def)
  have w2: "wrap64 (current s + 1) = current s + 1"
    using inv N bound by (intro wrap64_id) (auto simp: pool_inv_def)
  show ?thesis
  proof (cases "threads s ! i")
    case Idle
    have st: "thread_step s i = Inr (s\<lparr>ticket := ticket s + 1, threads := ys @ Loading (ticket s) # zs\<rparr>)"
      using True Idle by (simp add: thread_step_def upd w1)
    have th': "threads s = ys @ Idle # zs" using th Idle by simp
    show ?thesis using inv unfolding st pool_inv_def th'
      by (auto simp: ball_Un)
  next
    case (Loading tk)
    have th': "threads s = ys @ Loading tk # zs" using th Loading by simp
    show ?thesis
    proof (cases "tk < current s")
      case True
      have st: "thread_step s i = Inr (s\<lparr>threads := ys @ Admitted # zs\<rparr>)"
        using \<open>i < length (threads s)\<close> Loading True by (simp add: thread_step_def upd)
      show ?thesis using inv True unfolding st pool_inv_def th'
        by auto
    next
      case False
      have st: "thread_step s i = Inr (s\<lparr>threads := ys @ Waiting tk (current s) # zs\<rparr>)"
        using \<open>i < length (threads s)\<close> Loading False by (simp add: thread_step_def upd)
      show ?thesis using inv False unfolding st pool_inv_def th'
        by auto
    qed
  next
    case (Waiting tk c)
    have th': "threads s = ys @ Waiting tk c # zs" using th Waiting by simp
    show ?thesis
    proof (cases "current s \<noteq> c")
      case True
      have st: "thread_step s i = Inr (s\<lparr>threads := ys @ Loading tk # zs\<rparr>)"
        using \<open>i < length (threads s)\<close> Waiting True by (simp add: thread_step_def upd)
      show ?thesis using inv True unfolding st pool_inv_def th'
        by auto
    next
      case False
      have st: "thread_step s i = Inr s"
        using \<open>i < length (threads s)\<close> Waiting False by (simp add: thread_step_def upd)
      show ?thesis using inv unfolding st pool_inv_def
        by auto
    qed
  next
    case Admitted
    have th': "threads s = ys @ Admitted # zs" using th Admitted by simp
    have ne: "tickets s \<noteq> []" by (rule tickets_nonempty[OF inv N th'])
    have st: "thread_step s i = Inr (s\<lparr>tickets := butlast (tickets s), threads := ys @ Holding (last (tickets s)) # zs\<rparr>)"
      using True Admitted ne by (simp add: thread_step_def upd)
    have m: "mset (tickets s) = add_mset (last (tickets s)) (mset (butlast (tickets s)))"
      using ne by (metis append_butlast_last_id mset.simps(2) mset_append union_mset_add_mset_right add.right_neutral mset.simps(1))
    show ?thesis using inv unfolding st pool_inv_def th'
      by (auto simp: m ball_Un)
  next
    case (Holding k)
    have th': "threads s = ys @ Holding k # zs" using th Holding by simp
    have st: "thread_step s i = Inr (s\<lparr>tickets := tickets s @ [k], threads := ys @ Pushed # zs\<rparr>)"
      using True Holding by (simp add: thread_step_def upd)
    show ?thesis using inv unfolding st pool_inv_def th'
      by (auto simp: ball_Un)
  next
    case Pushed
    have th': "threads s = ys @ Pushed # zs" using th Pushed by simp
    have st: "thread_step s i = Inr (s\<lparr>current := current s + 1, threads := ys @ Idle # zs\<rparr>)"
      using True Pushed by (simp add: thread_step_def upd w2)
    show ?thesis using inv unfolding st pool_inv_def th'
      by (auto simp: ball_Un; fastforce)
  qed
qed

lemma init_inv: "0 \<le> N \<Longrightarrow> pool_inv N 0 (pool_init N M)"
  by (simp add: pool_inv_def pool_init_def waiting_def admitted_def checked_out_def)

lemma run_inv:
  assumes "pool_inv N n s" "0 \<le> N" "int n + int (length sched) + N < 2 ^ 63"
  shows "\<exists>s'. run s sched = Inr s' \<and> pool_inv N (n + length sched) s'"
  using assms
proof (induction sched arbitrary: s n)
  case Nil
  then show ?case by simp
next
  case (Cons i sched)
  from Cons.prems obtain s1 where s1: "thread_step s i = Inr s1" "pool_inv N (Suc n) s1"
    using step_inv[of N n s i] by auto
  from Cons.IH[OF s1(2) Cons.prems(2)] Cons.prems(3)
  obtain s' where "run s1 sched = Inr s'" "pool_inv N (Suc n + length sched) s'" by auto
  then show ?case using s1 by simp
qed

lemma reach_inv:
  assumes "0 \<le> N" "int (length sched) + N < 2 ^ 63"
  shows "\<exists>s. run (pool_init N M) sched = Inr s \<and> pool_inv N (length sched) s"
  using run_inv[OF init_inv[OF assms(1)] assms(1), of sched M] assms(2) by simp

text \<open>
  Claim C1. For every concurrency width \<open>N \<ge> 1\<close>, every number of host threads and
  every interleaving of their steps, the run never reaches the free-list pop with an
  empty list (the run is \<open>Inr\<close>, never \<open>Inl PopEmpty\<close>), and in the state reached at
  most \<open>N\<close> threads are past the ticket semaphore. Every prefix of an interleaving is an
  interleaving, so this holds at every moment. The interleaving is shorter than
  \<open>2^63 - N\<close> steps: up to there the two 64-bit counters cannot wrap around.
\<close>

theorem at_most_N_admitted:
  assumes "1 \<le> N" and "int (length sched) + N < 2 ^ 63"
  shows "\<exists>s. run (pool_init N M) sched = Inr s \<and> int (admitted (threads s)) \<le> N"
proof -
  have N: "0 \<le> N" using assms(1) by simp
  from reach_inv[OF N assms(2)] obtain s where
    "run (pool_init N M) sched = Inr s" "pool_inv N (length sched) s" by blast
  then show ?thesis using admitted_le[OF _ N] by blast
qed

theorem at_most_N_admitted_witness:
  "(1::int) \<le> 2 \<and> int (length [0, 1, 2, 0, 1, 2, 0, 1 :: nat]) + 2 < 2 ^ 63 \<and>
   (\<exists>s. run (pool_init 2 3) [0, 1, 2, 0, 1, 2, 0, 1] = Inr s \<and> int (admitted (threads s)) \<le> 2)"
  using at_most_N_admitted[of 2 "[0, 1, 2, 0, 1, 2, 0, 1]" 3] by simp

lemma step_mset:
  assumes "thread_step s i = Inr s'"
  shows "mset (tickets s') + mset (checked_out (threads s')) =
         mset (tickets s) + mset (checked_out (threads s))"
proof (cases "i < length (threads s)")
  case False
  then show ?thesis using assms by (simp add: thread_step_def)
next
  case True
  then obtain ys zs where th: "threads s = ys @ threads s ! i # zs"
    and upd: "\<And>p. (threads s)[i := p] = ys @ p # zs"
    using upd_split[of i "threads s"] by blast
  have m: "tickets s \<noteq> [] \<Longrightarrow>
      mset (tickets s) = add_mset (last (tickets s)) (mset (butlast (tickets s)))"
    by (metis append_butlast_last_id mset.simps(2) mset_append union_mset_add_mset_right add.right_neutral mset.simps(1))
  show ?thesis
  proof (cases "threads s ! i")
    case Admitted
    then have th': "threads s = ys @ Admitted # zs" using th by simp
    from assms True Admitted have ne: "tickets s \<noteq> []"
      by (auto simp: thread_step_def split: if_splits)
    then have "s' = s\<lparr>tickets := butlast (tickets s), threads := ys @ Holding (last (tickets s)) # zs\<rparr>"
      using assms True Admitted by (simp add: thread_step_def upd)
    then show ?thesis using m[OF ne] by (simp add: th')
  next
    case (Holding k)
    then have th': "threads s = ys @ Holding k # zs" using th by simp
    have "s' = s\<lparr>tickets := tickets s @ [k], threads := ys @ Pushed # zs\<rparr>"
      using assms True Holding by (simp add: thread_step_def upd)
    then show ?thesis by (simp add: th')
  next
    case Idle
    then have th': "threads s = ys @ Idle # zs" using th by simp
    have "s' = s\<lparr>ticket := wrap64 (ticket s + 1), threads := ys @ Loading (ticket s) # zs\<rparr>"
      using assms True Idle by (simp add: thread_step_def upd)
    then show ?thesis by (simp add: th')
  next
    case (Loading tk)
    then have th': "threads s = ys @ Loading tk # zs" using th by simp
    have "s' = s\<lparr>threads := ys @ Admitted # zs\<rparr> \<or> s' = s\<lparr>threads := ys @ Waiting tk (current s) # zs\<rparr>"
      using assms True Loading by (auto simp: thread_step_def upd split: if_splits)
    then show ?thesis by (auto simp: th')
  next
    case (Waiting tk c)
    then have th': "threads s = ys @ Waiting tk c # zs" using th by simp
    have "s' = s\<lparr>threads := ys @ Loading tk # zs\<rparr> \<or> s' = s"
      using assms True Waiting by (auto simp: thread_step_def upd split: if_splits)
    then show ?thesis by (auto simp: th')
  next
    case Pushed
    then have th': "threads s = ys @ Pushed # zs" using th by simp
    have "s' = s\<lparr>current := wrap64 (current s + 1), threads := ys @ Idle # zs\<rparr>"
      using assms True Pushed by (simp add: thread_step_def upd)
    then show ?thesis by (simp add: th')
  qed
qed

lemma run_mset:
  "run s sched = Inr s' \<Longrightarrow>
   mset (tickets s') + mset (checked_out (threads s')) =
   mset (tickets s) + mset (checked_out (threads s))"
proof (induction sched arbitrary: s)
  case Nil then show ?case by simp
next
  case (Cons i sched)
  then obtain s1 where "thread_step s i = Inr s1" "run s1 sched = Inr s'"
    by (auto split: sum.splits)
  then show ?case using Cons.IH step_mset by metis
qed

lemma checked_out_replicate_Idle: "checked_out (replicate M Idle) = []"
  by (induction M) (simp_all add: checked_out_def)

lemma set_indices: "set (map int [0..<nat N]) = {0..<N}"
proof (cases "0 \<le> N")
  case True
  then show ?thesis using image_int_atLeastLessThan[of 0 "nat N"] by simp
next
  case False
  then show ?thesis by simp
qed

text \<open>
  Claim C3. In every state that an interleaving reaches, the free-list followed by the
  checked-out indices has no duplicate and holds exactly the indices \<open>0, ..., N - 1\<close>:
  each index is either in the free-list or checked out by exactly one thread, never
  both, never neither. When no index is checked out, the free-list alone has
  exactly these indices, each once. (By the theorem of claim C1 the run of an interleaving
  shorter than \<open>2^63 - N\<close> steps always reaches a state.)
\<close>

theorem pool_integrity:
  assumes "run (pool_init N M) sched = Inr s"
  shows "distinct (tickets s @ checked_out (threads s)) \<and>
         set (tickets s @ checked_out (threads s)) = {0..<N} \<and>
         (checked_out (threads s) = [] \<longrightarrow> distinct (tickets s) \<and> set (tickets s) = {0..<N})"
proof -
  have "mset (tickets s @ checked_out (threads s)) = mset (map int [0..<nat N])"
    using run_mset[OF assms] by (simp add: pool_init_def checked_out_replicate_Idle)
  moreover have "distinct (map int [0..<nat N])" by (simp add: distinct_map)
  ultimately have d: "distinct (tickets s @ checked_out (threads s))"
    and st: "set (tickets s @ checked_out (threads s)) = {0..<N}"
    using mset_eq_imp_distinct_iff[of "tickets s @ checked_out (threads s)" "map int [0..<nat N]"]
      mset_eq_setD[of "tickets s @ checked_out (threads s)" "map int [0..<nat N]"]
      set_indices[of N]
    by simp_all
  then show ?thesis by auto
qed

theorem pool_integrity_witness:
  "run (pool_init 2 2) [0, 0, 0, 1, 1, 1, 0, 0, 1, 1] =
     Inr \<lparr>ticket = 2, current = 4, tickets = [1, 0], threads = [Idle, Idle]\<rparr> \<and>
   distinct ([1, 0 :: int] @ checked_out [Idle, Idle]) \<and>
   set ([1, 0 :: int] @ checked_out [Idle, Idle]) = {0..<2} \<and>
   checked_out [Idle, Idle] = [] \<and> distinct [1, 0 :: int] \<and> set [1, 0 :: int] = {0..<2}"
proof -
  have r: "run (pool_init 2 2) [0, 0, 0, 1, 1, 1, 0, 0, 1, 1] =
     Inr \<lparr>ticket = 2, current = 4, tickets = [1, 0], threads = [Idle, Idle]\<rparr>"
    by code_simp
  have c: "checked_out [Idle, Idle] = []" by (simp add: checked_out_def)
  have rest: "distinct ([1, 0 :: int] @ checked_out [Idle, Idle]) \<and>
      set ([1, 0 :: int] @ checked_out [Idle, Idle]) = {0..<2} \<and>
      checked_out [Idle, Idle] = [] \<and> distinct [1, 0 :: int] \<and> set [1, 0 :: int] = {0..<2}"
    using pool_integrity[OF r] c by simp
  show ?thesis by (rule conjI[OF r rest])
qed

lemma tickets_nonempty_nth:
  assumes "pool_inv N n s" "0 \<le> N" "i < length (threads s)" "threads s ! i = Admitted"
  shows "tickets s \<noteq> []"
proof -
  obtain ys zs where "threads s = ys @ threads s ! i # zs"
    using upd_split[OF assms(3)] by blast
  then have "threads s = ys @ Admitted # zs" using assms(4) by simp
  then show ?thesis by (rule tickets_nonempty[OF assms(1,2)])
qed

text \<open>
  Claim C2, as amended. Tickets are handed out in increasing order, so every ticket still
  waiting is below \<open>ticket\<close>, the ticket of the next caller. When a caller \<open>b\<close> with
  ticket \<open>tB\<close> is about to pass the test \<open>tB < current\<close>, every caller \<open>a\<close> still
  inside \<open>acquire\<close> with an earlier ticket \<open>tA < tB\<close> is no longer blocked: after
  \<open>b\<close> is admitted, the next two steps of \<open>a\<close> take it past the semaphore as well,
  with no release in between. Which of the two returns from \<open>acquire\<close> first is left
  to the scheduler.
\<close>

theorem earlier_ticket_admissible:
  assumes N: "0 \<le> N" and bound: "int (length sched) + 3 + N < 2 ^ 63"
    and r: "run (pool_init N M) sched = Inr s"
    and b: "b < length (threads s)" "threads s ! b = Loading tB" "tB < current s"
    and a: "a < length (threads s)" "wt (threads s ! a) = [tA]" "tA < tB"
  shows "(\<forall>t \<in> set (waiting (threads s)). t < ticket s) \<and>
         (\<exists>s'. run s [b, a, a] = Inr s' \<and> adm (threads s' ! b) = 1 \<and> adm (threads s' ! a) = 1)"
proof -
  from reach_inv[OF N, of sched M] bound r
  have inv: "pool_inv N (length sched) s" by auto
  have ab: "a \<noteq> b" using a b by auto
  have w: "\<forall>t \<in> set (waiting (threads s)). t < ticket s"
    using inv by (simp add: pool_inv_def)
  have run3: "\<exists>s'. run s [b, a, a] = Inr s' \<and> adm (threads s' ! b) = 1 \<and> adm (threads s' ! a) = 1"
  proof (cases "threads s ! a")
    case (Loading t)
    then have t: "t = tA" using a by simp
    define s2 where "s2 = s\<lparr>threads := (threads s)[b := Admitted, a := Admitted]\<rparr>"
    have r2: "run s [b, a] = Inr s2"
      using Loading t a b ab by (simp add: thread_step_def s2_def)
    from run_inv[OF inv N, of "[b, a]"] bound r2
    have i2: "pool_inv N (length sched + length [b, a]) s2" by auto
    have "a < length (threads s2)" "threads s2 ! a = Admitted"
      using a by (simp_all add: s2_def)
    then have "tickets s2 \<noteq> []" by (rule tickets_nonempty_nth[OF i2 N])
    then have ne: "tickets s \<noteq> []" by (simp add: s2_def)
    show ?thesis using Loading t a b ab ne
      by (simp add: thread_step_def)
  next
    case (Waiting t c)
    then have t: "t = tA" using a by simp
    have "Waiting t c \<in> set (threads s)" using Waiting a(1) nth_mem by metis
    then have "c \<le> t" using inv by (auto simp: pool_inv_def)
    then have "current s \<noteq> c" using t a b by simp
    then show ?thesis using Waiting a b ab t
      by (simp add: thread_step_def)
  qed (use a in simp_all)
  show ?thesis using w run3 by blast
qed

theorem earlier_ticket_admissible_witness:
  "(0::int) \<le> 2 \<and> int (length [0, 0, 1, 1, 2, 2, 3, 3, 0, 0, 0, 1, 1, 1, 3 :: nat]) + 3 + 2 < 2 ^ 63 \<and>
   run (pool_init 2 4) [0, 0, 1, 1, 2, 2, 3, 3, 0, 0, 0, 1, 1, 1, 3] =
     Inr \<lparr>ticket = 4, current = 4, tickets = [0, 1],
           threads = [Idle, Idle, Waiting 2 2, Loading 3]\<rparr> \<and>
   (\<exists>s'. run \<lparr>ticket = 4, current = 4, tickets = [0, 1],
              threads = [Idle, Idle, Waiting 2 2, Loading 3]\<rparr> [3, 2, 2] = Inr s' \<and>
         adm (threads s' ! 3) = 1 \<and> adm (threads s' ! 2) = 1)"
proof -
  have r: "run (pool_init 2 4) [0, 0, 1, 1, 2, 2, 3, 3, 0, 0, 0, 1, 1, 1, 3] =
     Inr \<lparr>ticket = 4, current = 4, tickets = [0, 1],
           threads = [Idle, Idle, Waiting 2 2, Loading 3]\<rparr>"
    by code_simp
  show ?thesis
    using earlier_ticket_admissible[OF _ _ r, of 3 3 2 2] r by simp
qed

text \<open>
  Claim C2, as stated, fails for \<open>N = 2\<close>. Threads 0 and 1 take tickets 0 and 1 and
  are admitted; threads 2 and 3 take tickets 2 and 3 and both block in
  \<open>current.wait(2)\<close>; threads 0 and 1 release, so \<open>current\<close> is 4; thread 3 wakes
  up first and is admitted while thread 2, which took its ticket earlier, is still inside
  \<open>wait\<close>.
\<close>

theorem later_caller_admitted_first:
  "run (pool_init 2 4) [0, 0, 1, 1, 2, 2, 3, 3, 0, 0, 0, 1, 1, 1, 3, 3] =
     Inr \<lparr>ticket = 4, current = 4, tickets = [0, 1],
           threads = [Idle, Idle, Waiting 2 2, Admitted]\<rparr>"
  by code_simp

section \<open>Proofs: scale factors\<close>

lemma c_div_pos:
  assumes "0 < b" "0 \<le> a"
  shows "\<exists>q. c_div a b = Some q \<and> q * b \<le> a \<and> a < (q + 1) * b"
proof -
  have "c_div a b = Some (a div b)"
    using assms by (cases "a = 0") (auto simp: c_div_def trunc_div_def INT_MIN_def sgn_if)
  moreover have e: "a = (a div b) * b + a mod b" by simp
  moreover have r: "0 \<le> a mod b" "a mod b < b" using assms by simp_all
  moreover have "(a div b + 1) * b = (a div b) * b + b" by (simp add: algebra_simps)
  ultimately have "c_div a b = Some (a div b) \<and> (a div b) * b \<le> a \<and> a < (a div b + 1) * b"
    by (metis add_le_cancel_left add_less_cancel_left add.right_neutral)
  then show ?thesis by blast
qed

text \<open>
  Claim C4, as amended. The derivation of the scale factors has no check that the output
  patch dimensions are multiples of the input patch dimensions. For positive input patch
  dimensions and non-negative output patch dimensions it always yields scale factors, and
  these are the quotients rounded down: \<open>h_scale * h_in \<le> h_out < (h_scale + 1) * h_in\<close>,
  and the same for the widths.
\<close>

theorem scale_factors_truncate:
  assumes "0 < d (getBindingDimensions instance 0) 2"
    and "0 < d (getBindingDimensions instance 0) 3"
    and "0 \<le> d (getBindingDimensions instance 1) 2"
    and "0 \<le> d (getBindingDimensions instance 1) 3"
  shows "\<exists>hs ws. scale_factors instance = Some (hs, ws) \<and>
           hs * d (getBindingDimensions instance 0) 2 \<le> d (getBindingDimensions instance 1) 2 \<and>
           d (getBindingDimensions instance 1) 2 < (hs + 1) * d (getBindingDimensions instance 0) 2 \<and>
           ws * d (getBindingDimensions instance 0) 3 \<le> d (getBindingDimensions instance 1) 3 \<and>
           d (getBindingDimensions instance 1) 3 < (ws + 1) * d (getBindingDimensions instance 0) 3"
proof -
  obtain hs where hs: "c_div (d (getBindingDimensions instance 1) 2) (d (getBindingDimensions instance 0) 2) = Some hs"
     "hs * d (getBindingDimensions instance 0) 2 \<le> d (getBindingDimensions instance 1) 2"
     "d (getBindingDimensions instance 1) 2 < (hs + 1) * d (getBindingDimensions instance 0) 2"
    using c_div_pos[OF assms(1,3)] by blast
  obtain ws where ws: "c_div (d (getBindingDimensions instance 1) 3) (d (getBindingDimensions instance 0) 3) = Some ws"
     "ws * d (getBindingDimensions instance 0) 3 \<le> d (getBindingDimensions instance 1) 3"
     "d (getBindingDimensions instance 1) 3 < (ws + 1) * d (getBindingDimensions instance 0) 3"
    using c_div_pos[OF assms(2,4)] by blast
  show ?thesis using hs ws by (simp add: scale_factors_def)
qed

theorem scale_factors_truncate_witness:
  "0 < d (getBindingDimensions (bound_instance (dims4 1 3 2 2) (dims4 1 3 5 7)) 0) 2 \<and>
   0 < d (getBindingDimensions (bound_instance (dims4 1 3 2 2) (dims4 1 3 5 7)) 0) 3 \<and>
   0 \<le> d (getBindingDimensions (bound_instance (dims4 1 3 2 2) (dims4 1 3 5 7)) 1) 2 \<and>
   0 \<le> d (getBindingDimensions (bound_instance (dims4 1 3 2 2) (dims4 1 3 5 7)) 1) 3 \<and>
   (\<exists>hs ws. scale_factors (bound_instance (dims4 1 3 2 2) (dims4 1 3 5 7)) = Some (hs, ws) \<and>
      hs * 2 \<le> 5 \<and> 5 < (hs + 1) * 2 \<and> ws * 2 \<le> 7 \<and> 7 < (ws + 1) * 2)"
  using scale_factors_truncate[of "bound_instance (dims4 1 3 2 2) (dims4 1 3 5 7)"]
  by (simp add: bound_instance_def dims4_def)

section \<open>Proofs: the frame callback\<close>

lemma getFrames_simps [simp]:
  "fst (getFrames n env ns) = map (\<lambda>node. GetFrameFilter n node (getFrameFilter env n node)) ns"
  "snd (getFrames n env ns) = map (getFrameFilter env n) ns"
  by (simp_all add: getFrames_def)

lemma vsTrtGetFrame_ready:
  assumes ns: "nodes dat \<noteq> []"
    and pl: "0 \<le> d (engine dat 0) 1" "0 \<le> d (engine dat 1) 1"
    and t: "0 \<le> acquire env" "acquire env < int (length (instances dat))"
    and sc: "scale_factors (instances dat ! nat (acquire env)) = Some (hs, ws)"
  shows "\<exists>info. h_scale info = hs \<and> w_scale info = ws \<and>
     vsTrtGetFrame n arAllFramesReady dat env =
       Inr (map (\<lambda>node. GetFrameFilter n node (getFrameFilter env n node)) (nodes dat)
              @ [NewVideoFrame (newVideoFrame env), Acquire (acquire env)]
              @ [Inference (acquire env) info, Release (acquire env)]
              @ map FreeFrame (map (getFrameFilter env n) (nodes dat))
              @ (case inference_result env of
                   Some msg \<Rightarrow> [SetFilterError (''vsTrtGetFrame: '' @ msg),
                                FreeFrame (newVideoFrame env)]
                 | None \<Rightarrow> []),
            case inference_result env of
              Some msg \<Rightarrow> None
            | None \<Rightarrow> Some (newVideoFrame env))"
proof -
  obtain x xs where "nodes dat = x # xs" using ns by (cases "nodes dat") auto
  then show ?thesis using pl t sc
    by (cases "inference_result env")
       (auto simp: vsTrtGetFrame_def getFrames_def Let_def)
qed

text \<open>The two ways out through \<open>reserve\<close>: a negative channel extent of the engine's
  input or output binding ends the request before the pool is touched.\<close>

lemma negative_src_planes_terminates:
  "d (engine dat 0) 1 < 0 \<Longrightarrow> vsTrtGetFrame n arAllFramesReady dat env = Inl LengthError"
  by (simp add: vsTrtGetFrame_def getFrames_def Let_def)

lemma negative_dst_planes_terminates:
  assumes "nodes dat \<noteq> []" and "0 \<le> d (engine dat 0) 1" and "d (engine dat 1) 1 < 0"
  shows "vsTrtGetFrame n arAllFramesReady dat env = Inl LengthError"
proof -
  obtain x xs where "nodes dat = x # xs" using assms(1) by (cases "nodes dat") auto
  then show ?thesis using assms(2,3)
    by (simp add: vsTrtGetFrame_def getFrames_def Let_def)
qed

lemma sample_scale: "scale_factors (instances sample_data ! nat (acquire (sample_frame_env r))) = Some (2, 2)"
  by (simp add: sample_data_def sample_frame_env_def scale_factors_def bound_instance_def dims4_def
        c_div_def trunc_div_def INT_MIN_def)

text \<open>
  Claim C6. A frame request in the ready phase that reaches the inference call (there
  is an upstream frame, the channel extents of the engine's two bindings are not negative,
  so that neither \<open>reserve\<close> throws, the index handed out is inside \<open>instances\<close>, the
  scale factors are defined) has these effects, in this order: the inference call, directly
  followed by the release of the pool slot, whatever the inference returned; then the
  release of every source frame; then the report. If inference returned a message, the
  report is \<open>setFilterError\<close> with the message behind the prefix \<open>vsTrtGetFrame: \<close>
  and the result is \<open>nullptr\<close>; otherwise nothing more happens and the result is
  the destination frame. Nothing is released, freed or reported before the inference call.
\<close>

theorem release_then_free_then_report:
  assumes "nodes dat \<noteq> []"
    and "0 \<le> d (engine dat 0) 1" and "0 \<le> d (engine dat 1) 1"
    and "0 \<le> acquire env" and "acquire env < int (length (instances dat))"
    and "scale_factors (instances dat ! nat (acquire env)) = Some sc"
  shows "\<exists>pre info post res.
     vsTrtGetFrame n arAllFramesReady dat env =
       Inr (pre @ [Inference (acquire env) info, Release (acquire env)]
              @ map FreeFrame (map (getFrameFilter env n) (nodes dat)) @ post, res) \<and>
     (\<forall>e \<in> set pre. \<forall>k f m. e \<noteq> Release k \<and> e \<noteq> FreeFrame f \<and> e \<noteq> SetFilterError m) \<and>
     (case inference_result env of
        Some msg \<Rightarrow> post = [SetFilterError (''vsTrtGetFrame: '' @ msg),
                            FreeFrame (newVideoFrame env)] \<and> res = None
      | None \<Rightarrow> post = [] \<and> res = Some (newVideoFrame env))"
proof -
  obtain hs ws where "sc = (hs, ws)" by (cases sc)
  with assms vsTrtGetFrame_ready[of dat env hs ws n] obtain info where
    r: "vsTrtGetFrame n arAllFramesReady dat env =
       Inr ((map (\<lambda>node. GetFrameFilter n node (getFrameFilter env n node)) (nodes dat)
              @ [NewVideoFrame (newVideoFrame env), Acquire (acquire env)])
              @ [Inference (acquire env) info, Release (acquire env)]
              @ map FreeFrame (map (getFrameFilter env n) (nodes dat))
              @ (case inference_result env of
                   Some msg \<Rightarrow> [SetFilterError (''vsTrtGetFrame: '' @ msg),
                                FreeFrame (newVideoFrame env)]
                 | None \<Rightarrow> []),
            case inference_result env of
              Some msg \<Rightarrow> None
            | None \<Rightarrow> Some (newVideoFrame env))"
    by auto
  show ?thesis
    apply (rule exI[of _ "map (\<lambda>node. GetFrameFilter n node (getFrameFilter env n node)) (nodes dat)
              @ [NewVideoFrame (newVideoFrame env), Acquire (acquire env)]"])
    apply (rule exI[of _ info])
    apply (rule exI[of _ "case inference_result env of
                   Some msg \<Rightarrow> [SetFilterError (''vsTrtGetFrame: '' @ msg),
                                FreeFrame (newVideoFrame env)]
                 | None \<Rightarrow> []"])
    apply (rule exI[of _ "case inference_result env of
              Some msg \<Rightarrow> None
            | None \<Rightarrow> Some (newVideoFrame env)"])
    using r by (auto split: option.splits)
qed

theorem release_then_free_then_report_witness:
  "nodes sample_data \<noteq> [] \<and>
   0 \<le> d (engine sample_data 0) 1 \<and> 0 \<le> d (engine sample_data 1) 1 \<and>
   0 \<le> acquire (sample_frame_env (Some ''out of memory'')) \<and>
   acquire (sample_frame_env (Some ''out of memory'')) < int (length (instances sample_data)) \<and>
   scale_factors (instances sample_data ! nat (acquire (sample_frame_env (Some ''out of memory''))))
     = Some (2, 2) \<and>
   (\<exists>pre info.
     vsTrtGetFrame 0 arAllFramesReady sample_data (sample_frame_env (Some ''out of memory'')) =
       Inr (pre @ [Inference 1 info, Release 1] @ [FreeFrame 10]
              @ [SetFilterError ''vsTrtGetFrame: out of memory'', FreeFrame 20], None))"
proof -
  have h: "nodes sample_data \<noteq> []"
    "0 \<le> d (engine sample_data 0) 1" "0 \<le> d (engine sample_data 1) 1"
    "0 \<le> acquire (sample_frame_env (Some ''out of memory''))"
    "acquire (sample_frame_env (Some ''out of memory'')) < int (length (instances sample_data))"
    by (simp_all add: sample_data_def sample_frame_env_def dims4_def)
  from release_then_free_then_report[OF h sample_scale, of 0]
  show ?thesis using h sample_scale
    by (auto simp: sample_data_def sample_frame_env_def)
qed

lemma frame_refs_append [simp]: "frame_refs (xs @ ys) f = frame_refs xs f + frame_refs ys f"
  by (simp add: frame_refs_def)

lemma frame_refs_Cons [simp]: "frame_refs (e # es) f = frame_delta f e + frame_refs es f"
  by (simp add: frame_refs_def)

lemma frame_refs_Nil [simp]: "frame_refs [] f = 0"
  by (simp add: frame_refs_def)

lemma slot_refs_append [simp]: "slot_refs (xs @ ys) k = slot_refs xs k + slot_refs ys k"
  by (simp add: slot_refs_def)

lemma slot_refs_Cons [simp]: "slot_refs (e # es) k = slot_delta k e + slot_refs es k"
  by (simp add: slot_refs_def)

lemma slot_refs_Nil [simp]: "slot_refs [] k = 0"
  by (simp add: slot_refs_def)

lemma frame_refs_get_free:
  "frame_refs (map (\<lambda>node. GetFrameFilter n node (g node)) ns) f
     + frame_refs (map (FreeFrame \<circ> g) ns) f = 0"
  by (induction ns) auto

lemma slot_refs_get: "slot_refs (map (\<lambda>node. GetFrameFilter n node (g node)) ns) k = 0"
  by (induction ns) auto

lemma slot_refs_free: "slot_refs (map (FreeFrame \<circ> g) ns) k = 0"
  by (induction ns) auto

text \<open>
  Claim C9. When inference returns a message (so the call has reached inference: there
  is an upstream frame, neither \<open>reserve\<close> has thrown, the index handed out is inside
  \<open>instances\<close>, the scale factors are defined), the call returns \<open>nullptr\<close>, its last
  effect is \<open>freeFrame\<close> on the destination frame, and over the whole call every
  frame and every pool slot has been given back as often as it was taken: the source
  frames, the destination frame and the slot are all released.
\<close>

theorem error_path_frees_everything:
  assumes "nodes dat \<noteq> []"
    and "0 \<le> d (engine dat 0) 1" and "0 \<le> d (engine dat 1) 1"
    and "0 \<le> acquire env" and "acquire env < int (length (instances dat))"
    and "scale_factors (instances dat ! nat (acquire env)) = Some sc"
    and "inference_result env = Some msg"
  shows "\<exists>evs. vsTrtGetFrame n arAllFramesReady dat env = Inr (evs, None) \<and>
           last evs = FreeFrame (newVideoFrame env) \<and>
           (\<forall>f. frame_refs evs f = 0) \<and> (\<forall>k. slot_refs evs k = 0)"
proof -
  obtain hs ws where "sc = (hs, ws)" by (cases sc)
  with assms vsTrtGetFrame_ready[of dat env hs ws n] obtain info where
    r: "vsTrtGetFrame n arAllFramesReady dat env =
       Inr (map (\<lambda>node. GetFrameFilter n node (getFrameFilter env n node)) (nodes dat)
              @ [NewVideoFrame (newVideoFrame env), Acquire (acquire env)]
              @ [Inference (acquire env) info, Release (acquire env)]
              @ map FreeFrame (map (getFrameFilter env n) (nodes dat))
              @ [SetFilterError (''vsTrtGetFrame: '' @ msg), FreeFrame (newVideoFrame env)],
            None)"
    by auto
  have "frame_refs (map (\<lambda>node. GetFrameFilter n node (getFrameFilter env n node)) (nodes dat)) f
     + frame_refs (map (FreeFrame \<circ> getFrameFilter env n) (nodes dat)) f = 0" for f
    by (rule frame_refs_get_free)
  then show ?thesis unfolding r
    by (auto simp: slot_refs_get slot_refs_free)
qed

theorem error_path_frees_everything_witness:
  "nodes sample_data \<noteq> [] \<and>
   0 \<le> d (engine sample_data 0) 1 \<and> 0 \<le> d (engine sample_data 1) 1 \<and>
   0 \<le> acquire (sample_frame_env (Some ''out of memory'')) \<and>
   acquire (sample_frame_env (Some ''out of memory'')) < int (length (instances sample_data)) \<and>
   scale_factors (instances sample_data ! nat (acquire (sample_frame_env (Some ''out of memory''))))
     = Some (2, 2) \<and>
   inference_result (sample_frame_env (Some ''out of memory'')) = Some ''out of memory'' \<and>
   (\<exists>evs. vsTrtGetFrame 0 arAllFramesReady sample_data (sample_frame_env (Some ''out of memory''))
            = Inr (evs, None) \<and>
          last evs = FreeFrame 20 \<and>
          (\<forall>f. frame_refs evs f = 0) \<and> (\<forall>k. slot_refs evs k = 0))"
proof -
  have h: "nodes sample_data \<noteq> []"
    "0 \<le> d (engine sample_data 0) 1" "0 \<le> d (engine sample_data 1) 1"
    "0 \<le> acquire (sample_frame_env (Some ''out of memory''))"
    "acquire (sample_frame_env (Some ''out of memory'')) < int (length (instances sample_data))"
    by (simp_all add: sample_data_def sample_frame_env_def dims4_def)
  have i: "inference_result (sample_frame_env (Some ''out of memory'')) = Some ''out of memory''"
    "newVideoFrame (sample_frame_env (Some ''out of memory'')) = 20"
    by (simp_all add: sample_frame_env_def)
  from error_path_frees_everything[OF h sample_scale i(1), of 0]
  show ?thesis using h sample_scale i by simp
qed

lemma c_div_defined:
  "b \<noteq> 0 \<Longrightarrow> \<not> (a = INT_MIN \<and> b = - 1) \<Longrightarrow> c_div a b = Some (trunc_div a b)"
  by (simp add: c_div_def)

lemma trunc_div_double: "b \<noteq> 0 \<Longrightarrow> trunc_div (2 * b) b = 2"
proof -
  assume b: "b \<noteq> 0"
  have "\<bar>2 * b\<bar> = 2 * \<bar>b\<bar>" by (simp add: abs_mult)
  then have "\<bar>2 * b\<bar> div \<bar>b\<bar> = 2" using b by simp
  moreover have "(2 * b < 0) = (b < 0)" by simp
  ultimately show ?thesis by (simp add: trunc_div_def)
qed

text \<open>What \<open>trunc_div\<close> computes, without a division: the quotient \<open>q\<close> leaves a
  remainder \<open>r\<close> smaller than the divisor in absolute value and of the sign of the
  dividend. There is one such \<open>q\<close> only.\<close>

lemma trunc_div_remainder:
  assumes "b \<noteq> 0"
  shows "\<exists>r. a = trunc_div a b * b + r \<and> \<bar>r\<bar> < \<bar>b\<bar> \<and> 0 \<le> r * a"
proof -
  have m: "\<bar>a\<bar> = (\<bar>a\<bar> div \<bar>b\<bar>) * \<bar>b\<bar> + \<bar>a\<bar> mod \<bar>b\<bar>" by simp
  have r0: "0 \<le> \<bar>a\<bar> mod \<bar>b\<bar>" "\<bar>a\<bar> mod \<bar>b\<bar> < \<bar>b\<bar>" using assms by simp_all
  define q where "q = \<bar>a\<bar> div \<bar>b\<bar>"
  define r where "r = \<bar>a\<bar> mod \<bar>b\<bar>"
  have m': "\<bar>a\<bar> = q * \<bar>b\<bar> + r" and r': "0 \<le> r" "r < \<bar>b\<bar>"
    using m r0 by (simp_all add: q_def r_def)
  show ?thesis
  proof (cases "0 \<le> a")
    case True
    then have a: "a = q * \<bar>b\<bar> + r" using m' by simp
    have "a = trunc_div a b * b + r"
    proof (cases "b < 0")
      case True
      then show ?thesis using a \<open>0 \<le> a\<close> by (simp add: trunc_div_def q_def)
    next
      case False
      then show ?thesis using a \<open>0 \<le> a\<close> by (simp add: trunc_div_def q_def)
    qed
    moreover have "\<bar>r\<bar> < \<bar>b\<bar>" using r' by simp
    moreover have "0 \<le> r * a" using r' True by simp
    ultimately show ?thesis by blast
  next
    case False
    then have a: "a = - (q * \<bar>b\<bar>) - r" using m' by simp
    have "a = trunc_div a b * b + (- r)"
    proof (cases "b < 0")
      case True
      then show ?thesis using a False by (simp add: trunc_div_def q_def)
    next
      case False
      then show ?thesis using a \<open>\<not> 0 \<le> a\<close> by (simp add: trunc_div_def q_def)
    qed
    moreover have "\<bar>- r\<bar> < \<bar>b\<bar>" using r' by simp
    moreover have "0 \<le> (- r) * a" using r' False by (simp add: mult_nonneg_nonpos)
    ultimately show ?thesis by blast
  qed
qed

lemma quotient_unique:
  fixes a b q q' r r' :: int
  assumes b: "b \<noteq> 0"
    and 1: "a = q * b + r" "\<bar>r\<bar> < \<bar>b\<bar>" "0 \<le> r * a"
    and 2: "a = q' * b + r'" "\<bar>r'\<bar> < \<bar>b\<bar>" "0 \<le> r' * a"
  shows "q = q'"
proof -
  have d: "\<bar>r' - r\<bar> < \<bar>b\<bar>"
  proof (cases "a = 0")
    case True
    then have "q * b = - r" "q' * b = - r'" using 1(1) 2(1) by simp_all
    then have "\<bar>q\<bar> * \<bar>b\<bar> < \<bar>b\<bar>" "\<bar>q'\<bar> * \<bar>b\<bar> < \<bar>b\<bar>"
      using 1(2) 2(2) by (metis abs_minus_cancel abs_mult)+
    then have "\<bar>q\<bar> < 1" "\<bar>q'\<bar> < 1" using b by (simp_all add: mult_less_cancel_right2)
    then have "q = 0" "q' = 0" by simp_all
    then have "r = 0" "r' = 0" using True 1(1) 2(1) by simp_all
    then show ?thesis using b by simp
  next
    case False
    then consider "0 < a" | "a < 0" by linarith
    then show ?thesis
    proof cases
      case 1
      then have "0 \<le> r" "0 \<le> r'" using assms(4,7) by (simp_all add: zero_le_mult_iff)
      then show ?thesis using assms(3,6) by linarith
    next
      case 2
      then have "r \<le> 0" "r' \<le> 0" using assms(4,7) by (simp_all add: zero_le_mult_iff)
      then show ?thesis using assms(3,6) by linarith
    qed
  qed
  have "(q - q') * b = r' - r" using 1(1) 2(1) by (simp add: algebra_simps)
  then have "\<bar>q - q'\<bar> * \<bar>b\<bar> < \<bar>b\<bar>" using d by (metis abs_mult)
  then have "\<bar>q - q'\<bar> < 1" using b by (simp add: mult_less_cancel_right2)
  then show ?thesis by simp
qed

text \<open>
  Claim C5. A frame request in the ready phase that reaches the inference call (there is
  an upstream frame, neither \<open>reserve\<close> throws, the index handed out is inside
  \<open>instances\<close>) and whose two divisions are defined (the bound input patch extents are
  not zero, and no \<open>INT_MIN / -1\<close>) calls inference with
  \<open>h_scale = output_patch_height / input_patch_height\<close> and
  \<open>w_scale = output_patch_width / input_patch_width\<close>, read from the bound shapes of
  the checked-out instance. The quotient of the C++ division is stated by what defines
  it: \<open>h_out = h_scale * h_in + r\<close> with \<open>\<bar>r\<bar> < \<bar>h_in\<bar>\<close> and \<open>r\<close> of the sign of
  \<open>h_out\<close>, and the same for the widths. In particular an output patch of twice the
  input patch in both directions gives \<open>h_scale = 2\<close> and \<open>w_scale = 2\<close>.
\<close>

theorem scale_factors_from_bound_shapes:
  assumes "nodes dat \<noteq> []"
    and "0 \<le> d (engine dat 0) 1" and "0 \<le> d (engine dat 1) 1"
    and "0 \<le> acquire env" and "acquire env < int (length (instances dat))"
    and "h_in = d (getBindingDimensions (instances dat ! nat (acquire env)) 0) 2"
    and "w_in = d (getBindingDimensions (instances dat ! nat (acquire env)) 0) 3"
    and "h_out = d (getBindingDimensions (instances dat ! nat (acquire env)) 1) 2"
    and "w_out = d (getBindingDimensions (instances dat ! nat (acquire env)) 1) 3"
    and "h_in \<noteq> 0" and "w_in \<noteq> 0"
    and "\<not> (h_out = INT_MIN \<and> h_in = - 1)" and "\<not> (w_out = INT_MIN \<and> w_in = - 1)"
  shows "\<exists>evs res info rh rw.
     vsTrtGetFrame n arAllFramesReady dat env = Inr (evs, res) \<and>
     Inference (acquire env) info \<in> set evs \<and>
     h_out = h_scale info * h_in + rh \<and> \<bar>rh\<bar> < \<bar>h_in\<bar> \<and> 0 \<le> rh * h_out \<and>
     w_out = w_scale info * w_in + rw \<and> \<bar>rw\<bar> < \<bar>w_in\<bar> \<and> 0 \<le> rw * w_out \<and>
     (h_out = 2 * h_in \<and> w_out = 2 * w_in \<longrightarrow> h_scale info = 2 \<and> w_scale info = 2)"
proof -
  have sc: "scale_factors (instances dat ! nat (acquire env))
              = Some (trunc_div h_out h_in, trunc_div w_out w_in)"
    using assms(6-13) by (simp add: scale_factors_def c_div_defined Let_def)
  from vsTrtGetFrame_ready[OF assms(1-5) sc, of n] obtain info evs res where
    i: "h_scale info = trunc_div h_out h_in" "w_scale info = trunc_div w_out w_in"
    and r: "vsTrtGetFrame n arAllFramesReady dat env = Inr (evs, res)"
      "Inference (acquire env) info \<in> set evs"
    by auto
  obtain rh where rh: "h_out = trunc_div h_out h_in * h_in + rh" "\<bar>rh\<bar> < \<bar>h_in\<bar>" "0 \<le> rh * h_out"
    using trunc_div_remainder[OF assms(10), of h_out] by blast
  obtain rw where rw: "w_out = trunc_div w_out w_in * w_in + rw" "\<bar>rw\<bar> < \<bar>w_in\<bar>" "0 \<le> rw * w_out"
    using trunc_div_remainder[OF assms(11), of w_out] by blast
  have two: "h_out = 2 * h_in \<and> w_out = 2 * w_in \<longrightarrow> h_scale info = 2 \<and> w_scale info = 2"
    using i assms(10,11) by (auto simp: trunc_div_double)
  show ?thesis
    apply (rule exI[of _ evs], rule exI[of _ res], rule exI[of _ info])
    apply (rule exI[of _ rh], rule exI[of _ rw])
    using r rh rw two by (simp add: i)
qed

theorem scale_factors_from_bound_shapes_witness:
  "nodes sample_data \<noteq> [] \<and>
   0 \<le> d (engine sample_data 0) 1 \<and> 0 \<le> d (engine sample_data 1) 1 \<and>
   0 \<le> acquire (sample_frame_env None) \<and>
   acquire (sample_frame_env None) < int (length (instances sample_data)) \<and>
   d (getBindingDimensions (instances sample_data ! nat (acquire (sample_frame_env None))) 0) 2 = 64 \<and>
   d (getBindingDimensions (instances sample_data ! nat (acquire (sample_frame_env None))) 0) 3 = 64 \<and>
   d (getBindingDimensions (instances sample_data ! nat (acquire (sample_frame_env None))) 1) 2 = 128 \<and>
   d (getBindingDimensions (instances sample_data ! nat (acquire (sample_frame_env None))) 1) 3 = 128 \<and>
   (\<exists>evs res info.
     vsTrtGetFrame 0 arAllFramesReady sample_data (sample_frame_env None) = Inr (evs, res) \<and>
     Inference 1 info \<in> set evs \<and> h_scale info = 2 \<and> w_scale info = 2)"
proof -
  let ?i = "instances sample_data ! nat (acquire (sample_frame_env None))"
  have h: "nodes sample_data \<noteq> []"
    "0 \<le> d (engine sample_data 0) 1" "0 \<le> d (engine sample_data 1) 1"
    "0 \<le> acquire (sample_frame_env None)"
    "acquire (sample_frame_env None) < int (length (instances sample_data))"
    by (simp_all add: sample_data_def sample_frame_env_def dims4_def)
  have g: "64 = d (getBindingDimensions ?i 0) 2" "64 = d (getBindingDimensions ?i 0) 3"
    "128 = d (getBindingDimensions ?i 1) 2" "128 = d (getBindingDimensions ?i 1) 3"
    by (simp_all add: sample_data_def sample_frame_env_def bound_instance_def dims4_def)
  have z: "(64::int) \<noteq> 0" "\<not> ((128::int) = INT_MIN \<and> (64::int) = - 1)"
    by (simp_all add: INT_MIN_def)
  have a: "acquire (sample_frame_env None) = 1" by (simp add: sample_frame_env_def)
  from scale_factors_from_bound_shapes[OF h g z(1) z(1) z(2) z(2), of 0]
  obtain evs res info where
    "vsTrtGetFrame 0 arAllFramesReady sample_data (sample_frame_env None) = Inr (evs, res)"
    "Inference (acquire (sample_frame_env None)) info \<in> set evs"
    "h_scale info = 2" "w_scale info = 2"
    by auto
  then show ?thesis using h g a by auto
qed

text \<open>
  Claim C4, as stated, fails: the instance that is checked out is bound to an input patch
  of 2 by 2 and an output patch of 3 by 3. The request signals nothing; it calls inference
  with both scale factors 1 and returns the destination frame.
\<close>

theorem non_integral_ratio_truncated:
  "vsTrtGetFrame 0 arAllFramesReady
     (sample_data\<lparr> instances := [bound_instance (dims4 1 3 64 64) (dims4 1 3 128 128),
                                   bound_instance (dims4 1 3 2 2) (dims4 1 3 3 3)] \<rparr>)
     (sample_frame_env None) =
   Inr ([GetFrameFilter 0 0 10, NewVideoFrame 20, Acquire 1,
         Inference 1 \<lparr> in_width = 64, in_height = 64, in_pitch = 256,
                       in_bytes_per_sample = 4, patch_w = 2, patch_h = 2,
                       out_pitch = 256, out_bytes_per_sample = 4,
                       w_scale = 1, h_scale = 1, info_pad = 0 \<rparr>,
         Release 1, FreeFrame 10],
        Some 20)"
  by (simp add: vsTrtGetFrame_def getFrames_def sample_data_def sample_frame_env_def
        scale_factors_def bound_instance_def dims4_def c_div_def trunc_div_def INT_MIN_def)

section \<open>Proofs: setup\<close>

lemmas sample_defs = sample_args_def sample_create_env_def vsTrtCreate_def build_pool_def
  block_size_of_def device_of_def set_error_def propGetInt_def int64ToIntS_def INT_MAX_def
  INT_MIN_def wrap32_def kWARNING_def

text \<open>The two tile requests of the specification: a 32 by 32 block with \<open>pad = 20\<close> is
  refused before the engine is loaded, with \<open>pad = 4\<close> it is accepted.\<close>

lemma pad20: \<open>vsTrtCreate (sample_args (Some 20) (Some 32) (Some 32) None) sample_create_env =
   ([SetError ''operator(): "pad" too large'', FreeNode 0], Failed ''operator(): "pad" too large'')\<close>
  by (simp add: sample_defs)

lemma pad4: "fst (vsTrtCreate (sample_args (Some 4) (Some 32) (Some 32) None) sample_create_env) =
   [InitEngine ''model.engine'', CreateFilter]"
  by (simp add: sample_defs)

text \<open>
  Claim C7 at \<open>block_w = 32\<close>, \<open>block_h = 32\<close>, \<open>pad = 2147483647\<close>:
  \<open>block_w - 2 * pad\<close> is far below zero, but \<open>2 * pad\<close> overflows the \<open>int\<close>
  and comes out as \<open>-2\<close>, the test sees \<open>34\<close>, and the setup goes on to load the
  engine and to create the filter.
\<close>

theorem pad_overflow_passes_validation:
  "fst (vsTrtCreate (sample_args (Some 2147483647) (Some 32) (Some 32) None) sample_create_env) =
     [InitEngine ''model.engine'', CreateFilter]"
  by (simp add: sample_defs)

text \<open>
  Claim C10, as stated, fails at \<open>num_streams = -1\<close>: the setup does not reach the
  read of instance 0; it ends in \<open>instances.reserve\<close>.
\<close>

theorem negative_num_streams_terminates:
  "vsTrtCreate (sample_args None None None (Some (- 1))) sample_create_env =
     ([InitEngine ''model.engine''], Terminated)"
  by (simp add: sample_defs)

lemma zero_num_streams_undefined: 
  "vsTrtCreate (sample_args None None None (Some 0)) sample_create_env =
     ([InitEngine ''model.engine''], Undefined)"
  by (simp add: sample_defs)

text \<open>
  Claim C8. When \<open>block_w\<close> is absent and \<open>pad\<close> is given and not zero, the setup
  ends in \<open>set_error\<close> and never loads the engine. If the clips pass \<open>checkNodes\<close>
  and \<open>pad\<close> is positive, the message is that \<open>block_w\<close> must be specified, behind
  the prefix that \<open>set_error\<close> puts in front (a negative \<open>pad\<close> is refused one step
  earlier, clips that do not fit earlier still).
\<close>

theorem whole_frame_excludes_pad:
  assumes "arg_block_w args = None" and "arg_pad args = Some p" and "p \<noteq> 0"
  shows \<open>\<exists>evs msg. vsTrtCreate args env = (evs, Failed msg) \<and>
           (\<forall>path. InitEngine path \<notin> set evs) \<and>
           (checkNodes env (map (videoInfo env) (clips args)) = None \<and> 0 < p
              \<longrightarrow> msg = lambda_func env @ '': "block_w" must be specified'')\<close>
proof (cases "checkNodes env (map (videoInfo env) (clips args))")
  case (Some err)
  then show ?thesis by (auto simp: vsTrtCreate_def set_error_def)
next
  case None
  have nz: "int64ToIntS p \<noteq> 0"
    using assms(3) by (auto simp: int64ToIntS_def INT_MAX_def INT_MIN_def)
  have pos: "0 < p \<Longrightarrow> \<not> int64ToIntS p < 0"
    by (auto simp: int64ToIntS_def INT_MAX_def INT_MIN_def)
  show ?thesis
  proof (cases "int64ToIntS p < 0")
    case True
    then show ?thesis using None assms pos
      by (auto simp: vsTrtCreate_def set_error_def propGetInt_def)
  next
    case False
    have \<open>block_size_of (int64ToIntS p) args (map (videoInfo env) (clips args))
            = Fail ''"block_w" must be specified''\<close>
      using assms(1) nz by (simp add: block_size_of_def propGetInt_def)
    then show ?thesis using None assms False
      by (auto simp: vsTrtCreate_def set_error_def propGetInt_def)
  qed
qed

theorem whole_frame_excludes_pad_witness:
  \<open>arg_block_w (sample_args (Some 4) None None None) = None \<and>
   arg_pad (sample_args (Some 4) None None None) = Some 4 \<and> (4::int) \<noteq> 0 \<and>
   (\<exists>evs. vsTrtCreate (sample_args (Some 4) None None None) sample_create_env
            = (evs, Failed ''operator(): "block_w" must be specified'') \<and>
          (\<forall>path. InitEngine path \<notin> set evs))\<close>
proof -
  have h: "arg_block_w (sample_args (Some 4) None None None) = None"
    "arg_pad (sample_args (Some 4) None None None) = Some 4" "(4::int) \<noteq> 0"
    by (simp_all add: sample_args_def)
  have c: "checkNodes sample_create_env
             (map (videoInfo sample_create_env) (clips (sample_args (Some 4) None None None))) = None"
    by (simp add: sample_create_env_def)
  from whole_frame_excludes_pad[OF h, of sample_create_env] c
  show ?thesis using h by (auto simp: sample_create_env_def)
qed

lemma getResources_all:
  assumes "\<forall>i \<in> set js. \<exists>inst. g i = Inr inst"
  shows "\<exists>insts. getResources g js acc = Inr (acc @ insts) \<and> length insts = length js"
  using assms
proof (induction js arbitrary: acc)
  case Nil
  then show ?case by simp
next
  case (Cons j js)
  then obtain inst where j: "g j = Inr inst" by auto
  from Cons.IH[of "acc @ [inst]"] Cons.prems
  obtain insts where "getResources g js (acc @ [inst]) = Inr ((acc @ [inst]) @ insts)"
    "length insts = length js" by auto
  then show ?case using j by (intro exI[of _ "inst # insts"]) simp
qed

text \<open>
  Claim C10, as amended. No step of the setup checks that \<open>num_streams\<close> is positive.
  When everything before the pool is built succeeds and every \<open>getResource\<close> call
  succeeds: with \<open>num_streams \<ge> 1\<close> the filter is created with \<open>num_streams\<close>
  instances, so the read of instance 0 is in bounds; with \<open>num_streams = 0\<close> the
  instance sequence is empty at the publish step and the read of element 0 is undefined;
  with \<open>num_streams < 0\<close> the setup does not get that far, \<open>instances.reserve\<close> throws
  out of the \<open>noexcept\<close> function and the process terminates.
\<close>

theorem num_streams_not_validated:
  assumes "checkNodes env (map (videoInfo env) (clips args)) = None"
    and "clips args \<noteq> []"
    and "p = (case arg_pad args of None \<Rightarrow> 0 | Some v \<Rightarrow> int64ToIntS v)"
    and "0 \<le> p"
    and "block_size_of p args (map (videoInfo env) (clips args)) = Ok bs"
    and "device_of args env = Ok dev"
    and "initEngine env (engine_path args) = Inr eng"
    and "graph = (case arg_use_cuda_graph args of None \<Rightarrow> False | Some v \<Rightarrow> v \<noteq> 0)"
    and "streams = (case arg_num_streams args of None \<Rightarrow> 1 | Some v \<Rightarrow> int64ToIntS v)"
    and "\<forall>i < nat streams. \<exists>inst.
           getResource env i eng (selectProfile env eng bs) bs graph = Inr inst"
  shows "(1 \<le> streams \<longrightarrow>
            (\<exists>evs dat. vsTrtCreate args env = (evs, Created dat) \<and>
                       int (length (instances dat)) = streams)) \<and>
         (streams = 0 \<longrightarrow> snd (vsTrtCreate args env) = Undefined) \<and>
         (streams < 0 \<longrightarrow> snd (vsTrtCreate args env) = Terminated)"
proof -
  obtain verb where verb: "verb = (case arg_verbosity args of None \<Rightarrow> kWARNING | Some v \<Rightarrow> int64ToIntS v)"
    by simp
  have v: "vsTrtCreate args env =
      build_pool args env (map (videoInfo env) (clips args)) p bs dev graph streams verb"
    using assms(1,3,4,5,6,8,9) verb
    by (auto simp: vsTrtCreate_def propGetInt_def split: option.splits)
  obtain vi0 vis where vis: "map (videoInfo env) (clips args) = vi0 # vis"
    using assms(2) by (cases "clips args") auto
  have "\<forall>i \<in> set [0..<nat streams]. \<exists>inst.
           getResource env i eng (selectProfile env eng bs) bs graph = Inr inst"
    using assms(10) by simp
  from getResources_all[OF this, of "[]"] obtain insts where
    insts: "getResources (\<lambda>i. getResource env i eng (selectProfile env eng bs) bs graph)
              [0..<nat streams] [] = Inr insts" "length insts = nat streams"
    by auto
  have a: "1 \<le> streams \<longrightarrow>
            (\<exists>evs dat. vsTrtCreate args env = (evs, Created dat) \<and>
                       int (length (instances dat)) = streams)"
  proof
    assume s: "1 \<le> streams"
    then obtain i0 is0 where "insts = i0 # is0" using insts(2) by (cases insts) auto
    then show "\<exists>evs dat. vsTrtCreate args env = (evs, Created dat) \<and>
                       int (length (instances dat)) = streams"
      using s insts vis assms(7) unfolding v
      by (auto simp: build_pool_def)
  qed
  have b: "streams = 0 \<longrightarrow> snd (vsTrtCreate args env) = Undefined"
    using vis assms(7) unfolding v by (auto simp: build_pool_def)
  have c: "streams < 0 \<longrightarrow> snd (vsTrtCreate args env) = Terminated"
    using assms(7) unfolding v by (auto simp: build_pool_def)
  show ?thesis using a b c by blast
qed

theorem num_streams_not_validated_witness:
  "checkNodes sample_create_env
     (map (videoInfo sample_create_env) (clips (sample_args None None None (Some 2)))) = None \<and>
   clips (sample_args None None None (Some 2)) \<noteq> [] \<and>
   block_size_of 0 (sample_args None None None (Some 2))
     (map (videoInfo sample_create_env) (clips (sample_args None None None (Some 2))))
     = Ok (VideoSize 64 64) \<and>
   device_of (sample_args None None None (Some 2)) sample_create_env = Ok 0 \<and>
   (\<exists>evs dat. vsTrtCreate (sample_args None None None (Some 2)) sample_create_env
                 = (evs, Created dat) \<and> int (length (instances dat)) = 2)"
proof -
  let ?a = "sample_args None None None (Some 2)"
  let ?e = "sample_create_env"
  have h1: "checkNodes ?e (map (videoInfo ?e) (clips ?a)) = None"
    by (simp add: sample_create_env_def)
  have h2: "clips ?a \<noteq> []" by (simp add: sample_args_def)
  have h3: "(0::int) = (case arg_pad ?a of None \<Rightarrow> 0 | Some v \<Rightarrow> int64ToIntS v)"
    by (simp add: sample_args_def)
  have h4: "(0::int) \<le> 0" by simp
  have h5: "block_size_of 0 ?a (map (videoInfo ?e) (clips ?a)) = Ok (VideoSize 64 64)"
    by (simp add: sample_defs)
  have h6: "device_of ?a ?e = Ok 0" by (simp add: sample_defs)
  have h7: "initEngine ?e (engine_path ?a) = Inr (\<lambda>i. dims4 1 3 (- 1) (- 1))"
    by (simp add: sample_create_env_def)
  have h8: "False = (case arg_use_cuda_graph ?a of None \<Rightarrow> False | Some v \<Rightarrow> v \<noteq> 0)"
    by (simp add: sample_args_def)
  have h9: "(2::int) = (case arg_num_streams ?a of None \<Rightarrow> 1 | Some v \<Rightarrow> int64ToIntS v)"
    by (simp add: sample_args_def int64ToIntS_def INT_MAX_def INT_MIN_def)
  have h10: "\<forall>i < nat 2. \<exists>inst.
       getResource ?e i (\<lambda>i. dims4 1 3 (- 1) (- 1))
         (selectProfile ?e (\<lambda>i. dims4 1 3 (- 1) (- 1)) (VideoSize 64 64))
         (VideoSize 64 64) False = Inr inst"
    by (simp add: sample_create_env_def)
  from num_streams_not_validated[OF h1 h2 h3 h4 h5 h6 h7 h8 h9 h10]
  show ?thesis using h1 h2 h5 h6 by simp
qed

lemma wrap32_id: "- (2 ^ 31) \<le> x \<Longrightarrow> x < 2 ^ 31 \<Longrightarrow> wrap32 x = x"
  by (simp add: wrap32_def)

lemma int64ToIntS_id: "- (2 ^ 31) \<le> x \<Longrightarrow> x < 2 ^ 31 \<Longrightarrow> int64ToIntS x = x"
  by (simp add: int64ToIntS_def INT_MAX_def INT_MIN_def)

text \<open>A setup that creates the filter leaves the semaphore and the free-list in the
  state from which the interleavings of the pool start.\<close>

lemma build_pool_Created:
  assumes "build_pool args env in_vis p bs dev graph streams verb = (evs, Created dat)"
  shows "num_streams dat = streams \<and> semaphore_current dat = streams \<and>
         free_list dat = map int [0..<nat streams]"
  using assms
  by (auto simp: build_pool_def set_error_def Let_def
           split: sum.splits if_splits list.splits)

lemma vsTrtCreate_pool_init:
  assumes "vsTrtCreate args env = (evs, Created dat)"
  shows "current (pool_init (num_streams dat) M) = semaphore_current dat \<and>
         tickets (pool_init (num_streams dat) M) = free_list dat \<and>
         ticket (pool_init (num_streams dat) M) = 0"
proof -
  from assms obtain in_vis p bs dev graph streams verb where
    "build_pool args env in_vis p bs dev graph streams verb = (evs, Created dat)"
    by (auto simp: vsTrtCreate_def set_error_def Let_def
             split: option.splits if_splits checked.splits prod.splits)
  from build_pool_Created[OF this] show ?thesis by (simp add: pool_init_def)
qed

text \<open>Inside the range where the \<open>int\<close> arithmetic does not overflow, a tile request
  with \<open>block_w - 2 * pad \<le> 0\<close> or \<open>block_h - 2 * pad \<le> 0\<close> is refused before
  the engine is loaded.\<close>

lemma pad_too_large_rejected:
  assumes "arg_pad args = Some pv" and "0 \<le> pv" and "pv < 2 ^ 29"
    and "arg_block_w args = Some bw" and "- (2 ^ 30) \<le> bw" and "bw < 2 ^ 31"
    and "bh = (case arg_block_h args of None \<Rightarrow> bw | Some v \<Rightarrow> v)"
    and "- (2 ^ 30) \<le> bh" and "bh < 2 ^ 31"
    and "bw - 2 * pv \<le> 0 \<or> bh - 2 * pv \<le> 0"
  shows "\<exists>evs msg. vsTrtCreate args env = (evs, Failed msg) \<and>
           (\<forall>path. InitEngine path \<notin> set evs)"
proof (cases "checkNodes env (map (videoInfo env) (clips args))")
  case (Some err)
  then show ?thesis by (auto simp: vsTrtCreate_def set_error_def)
next
  case None
  have p: "int64ToIntS pv = pv" using assms(2,3) by (intro int64ToIntS_id) auto
  have w: "int64ToIntS bw = bw" using assms(5,6) by (intro int64ToIntS_id) auto
  have h: "int64ToIntS bh = bh" using assms(8,9) by (intro int64ToIntS_id) auto
  have p2: "wrap32 (2 * pv) = 2 * pv" using assms(2,3) by (intro wrap32_id) auto
  have ww: "wrap32 (bw - 2 * pv) = bw - 2 * pv" using assms(2,3,5,6) by (intro wrap32_id) auto
  have wh: "wrap32 (bh - 2 * pv) = bh - 2 * pv" using assms(2,3,8,9) by (intro wrap32_id) auto
  have \<open>block_size_of pv args (map (videoInfo env) (clips args)) = Fail ''"pad" too large''\<close>
    using assms(4,7,10) w h p2 ww wh
    by (auto simp: block_size_of_def propGetInt_def split: option.splits)
  then show ?thesis using None assms(1,2) p
    by (auto simp: vsTrtCreate_def set_error_def propGetInt_def)
qed

end
